theory Spec2Isabelle
  imports Main "HOL-Library.AList"
begin

section \<open>Data model (types.ts)\<close>

text \<open>
  The workspace coordinator is the class \<open>SyncRoom\<close> (sync.ts). Its fields become a
  record, its methods functions from the state to the state. What the class obtains from
  the platform is made explicit: the durable store behind \<open>this.state.storage\<close>, the
  server side of every WebSocket (whether \<open>send\<close> raises, and what has been delivered),
  the clock, and the cryptographic primitives used by \<open>verifyToken\<close>.

  JavaScript numbers that count versions are modelled as unbounded integers; the one place
  where \<open>NaN\<close> can arise (\<open>parseInt\<close>) has its own type. Strings are lists of 8-bit
  characters.
\<close>

datatype changeType = Create | Update | Delete

record EncryptedChange =
  change_id :: string
  entityId :: string
  changeType :: changeType
  encryptedData :: string
  nonce :: string
  origin_siteId :: string
  timestamp :: string
  version :: int

record PresenceMember =
  member_accountId :: string
  member_siteId :: string
  member_joinedAt :: nat
  member_lastSeen :: nat

record AuthToken =
  token_accountId :: string
  token_exp :: int
  token_iat :: int

text \<open>
  What a client submits as \<open>changes\<close> is whatever \<open>JSON.parse\<close> (or
  \<open>request.json()\<close>) produced: the annotation \<open>EncryptedChange[]\<close> is not checked
  at run time. An element is either an object, read with the declared fields, or
  \<open>null\<close> or a primitive, on which a property write raises a \<open>TypeError\<close>. The
  value itself is either something \<open>for ... of\<close> can iterate (an array; a string
  iterates as primitives) or not.
\<close>

datatype element = Record EncryptedChange | NonObject

datatype submitted = NotIterable | Elements "element list"

text \<open>A JavaScript number as far as \<open>parseInt\<close> can produce one.\<close>

datatype number = Num int | NaN

text \<open>\<open>c.version > sinceVersion\<close>: every comparison with \<open>NaN\<close> is false.\<close>

fun js_gt :: "int \<Rightarrow> number \<Rightarrow> bool" where
  "js_gt a (Num b) = (a > b)"
| "js_gt a NaN = False"

datatype SyncMessage =
    Auth string
  | Join string
  | Leave
  | Push submitted
  | Pull number
  | Ack int

datatype ServerMessage =
    MsgError string string
  | MsgAuthenticated string
  | MsgJoined string int
  | MsgChanges "EncryptedChange list" int
  | MsgPushed int
  | MsgPresence "PresenceMember list"

text \<open>
  A server-side WebSocket object is identified by a number. \<open>joinedAt\<close> and
  \<open>lastSeen\<close> hold the clock reading (milliseconds) whose ISO rendering the code stores.
\<close>

type_synonym ws = nat

record Session =
  accountId :: string
  siteId :: string
  webSocket :: ws
  workspaceId :: "string option"
  joinedAt :: nat
  lastSeen :: nat

datatype exn = StorageError | ChannelClosed | JsonError | TypeError

text \<open>
  The durable key-value store: the two keys the class uses, and a script of the outcomes
  of the coming \<open>put\<close> calls (\<open>True\<close>: that call raises). An exhausted script means
  that every further \<open>put\<close> succeeds.
\<close>

record storage =
  kv_version :: "int option"
  kv_changes :: "EncryptedChange list option"
  put_faults :: "bool list"

record SyncRoom =
  sessions :: "(ws \<times> Session) list"
  changes :: "EncryptedChange list"
  currentVersion :: int
  store :: storage
  SYNC_SECRET :: "string option"
  closed :: "ws set"
  wire :: "(ws \<times> ServerMessage) list"
  next_ws :: ws

text \<open>
  \<open>sessions\<close> is the \<open>Map<WebSocket, Session>\<close>, kept in insertion order as the
  JavaScript Map iterates it. \<open>closed\<close> are the channels on which \<open>ws.send\<close> raises,
  \<open>wire\<close> the messages handed to a channel so far (oldest first), \<open>next_ws\<close> the
  identity of the next WebSocket pair.
\<close>

record Request =
  upgrade :: "string option"
  pathname :: string
  http_method :: string
  since :: "string option"
  authorization :: "string option"
  body :: "submitted option"

text \<open>
  \<open>since\<close> is \<open>url.searchParams.get("since")\<close>, \<open>authorization\<close> and \<open>upgrade\<close> the
  headers of those names (\<open>None\<close> for \<open>null\<close>), \<open>body\<close> the value of
  \<open>request.json()\<close> (\<open>None\<close> when it rejects).
\<close>

datatype Response =
    ChangesResponse "EncryptedChange list" int
  | ErrorResponse string nat
  | SuccessResponse int
  | NotFound
  | SwitchingProtocols ws

section \<open>Platform: truthiness, parseInt, storage, channels\<close>

text \<open>A string is truthy unless empty; \<open>null\<close> is falsy.\<close>

fun truthy :: "string option \<Rightarrow> bool" where
  "truthy None = False"
| "truthy (Some s) = (s \<noteq> [])"

text \<open>\<open>a || b\<close> on an optional string with a string default.\<close>

definition or_else :: "string option \<Rightarrow> string \<Rightarrow> string" where
  "or_else a b = (case a of None \<Rightarrow> b | Some s \<Rightarrow> if s = [] then b else s)"

definition isWhiteSpace :: "char \<Rightarrow> bool" where
  "isWhiteSpace c = (of_char c \<in> {9, 10, 11, 12, 13, 32, 160 :: nat})"

definition digitValue :: "char \<Rightarrow> nat option" where
  "digitValue c =
     (let n = (of_char c :: nat) in
      if 48 \<le> n \<and> n \<le> 57 then Some (n - 48)
      else if 97 \<le> n \<and> n \<le> 122 then Some (n - 87)
      else if 65 \<le> n \<and> n \<le> 90 then Some (n - 55)
      else None)"

definition radixDigit :: "nat \<Rightarrow> char \<Rightarrow> bool" where
  "radixDigit R c = (case digitValue c of None \<Rightarrow> False | Some d \<Rightarrow> d < R)"

definition digitsValue :: "nat \<Rightarrow> string \<Rightarrow> nat" where
  "digitsValue R Z =
     foldl (\<lambda>a c. a * R + (case digitValue c of None \<Rightarrow> 0 | Some d \<Rightarrow> d)) 0 Z"

text \<open>
  \<open>parseInt(string)\<close> with no radix argument: leading white space is dropped, a sign is
  read, a \<open>0x\<close>/\<open>0X\<close> prefix selects radix 16, the longest prefix of digits is the
  value, and no digit at all gives \<open>NaN\<close>.
\<close>

definition parseInt :: "string \<Rightarrow> number" where
  "parseInt inputString =
     (let S = dropWhile isWhiteSpace inputString;
          sign = (if take 1 S = ''-'' then - 1 else 1 :: int);
          S1 = (if take 1 S = ''+'' \<or> take 1 S = ''-'' then drop 1 S else S);
          hex = (take 2 S1 = ''0x'' \<or> take 2 S1 = ''0X'');
          R = (if hex then 16 else 10);
          S2 = (if hex then drop 2 S1 else S1);
          Z = takeWhile (radixDigit R) S2
      in if Z = [] then NaN else Num (sign * int (digitsValue R Z)))"

text \<open>\<open>String(n)\<close> for a non-negative integer, as the template literal prints it.\<close>

fun decimal :: "nat \<Rightarrow> string" where
  "decimal n =
     (if n < 10 then [char_of (48 + n)]
      else decimal (n div 10) @ [char_of (48 + n mod 10)])"

declare decimal.simps [simp del]

text \<open>\<open>storage.put(key, value)\<close> for the two keys; a faulty call raises and writes nothing.\<close>

definition put_version :: "int \<Rightarrow> storage \<Rightarrow> (exn + unit) \<times> storage" where
  "put_version v st =
     (case put_faults st of
        True # fs \<Rightarrow> (Inl StorageError, st\<lparr>put_faults := fs\<rparr>)
      | _ \<Rightarrow> (Inr (), st\<lparr>kv_version := Some v, put_faults := drop 1 (put_faults st)\<rparr>))"

definition put_changes :: "EncryptedChange list \<Rightarrow> storage \<Rightarrow> (exn + unit) \<times> storage" where
  "put_changes cs st =
     (case put_faults st of
        True # fs \<Rightarrow> (Inl StorageError, st\<lparr>put_faults := fs\<rparr>)
      | _ \<Rightarrow> (Inr (), st\<lparr>kv_changes := Some cs, put_faults := drop 1 (put_faults st)\<rparr>))"

text \<open>\<open>ws.send(JSON.stringify(message))\<close>: raises on a closed channel.\<close>

definition ws_send :: "ws \<Rightarrow> ServerMessage \<Rightarrow> SyncRoom \<Rightarrow> (exn + unit) \<times> SyncRoom" where
  "ws_send w message s =
     (if w \<in> closed s then (Inl ChannelClosed, s)
      else (Inr (), s\<lparr>wire := wire s @ [(w, message)]\<rparr>))"

section \<open>Control flow: methods that may raise\<close>

text \<open>
  A method runs on the state and either returns a value or raises; in both cases the
  state it has reached so far remains. \<open>seq\<close> is \<open>;\<close>, \<open>catch\<close> is
  \<open>try { ... } catch { ... }\<close>.
\<close>

type_synonym 'a action = "SyncRoom \<Rightarrow> (exn + 'a) \<times> SyncRoom"

definition ret :: "'a \<Rightarrow> 'a action" where
  "ret x s = (Inr x, s)"

definition seq :: "'a action \<Rightarrow> ('a \<Rightarrow> 'b action) \<Rightarrow> 'b action" where
  "seq m f s = (case m s of (Inl e, s') \<Rightarrow> (Inl e, s') | (Inr x, s') \<Rightarrow> f x s')"

definition catch :: "'a action \<Rightarrow> 'a action \<Rightarrow> 'a action" where
  "catch m h s = (case m s of (Inl e, s') \<Rightarrow> h s' | (Inr x, s') \<Rightarrow> (Inr x, s'))"

definition storage_put_version :: "int \<Rightarrow> unit action" where
  "storage_put_version v s = (case put_version v (store s) of (r, st) \<Rightarrow> (r, s\<lparr>store := st\<rparr>))"

definition storage_put_changes :: "EncryptedChange list \<Rightarrow> unit action" where
  "storage_put_changes cs s = (case put_changes cs (store s) of (r, st) \<Rightarrow> (r, s\<lparr>store := st\<rparr>))"

section \<open>verifyToken (auth.ts)\<close>

text \<open>
  The primitives of the runtime that \<open>verifyToken\<close> calls are parameters:
  \<open>decode_payload\<close> is \<open>JSON.parse(atob(payloadB64))\<close> (\<open>None\<close> when one of the two
  raises); \<open>hmac_verify secret sigB64 payload\<close> is the HMAC-SHA256 check of
  \<open>crypto.subtle\<close> on the re-serialised payload (\<open>None\<close> when importing the key,
  decoding the signature or the check itself raises).
\<close>

record platform =
  decode_payload :: "string \<Rightarrow> AuthToken option"
  hmac_verify :: "string \<Rightarrow> string \<Rightarrow> AuthToken \<Rightarrow> bool option"

text \<open>\<open>token.split(".")\<close>\<close>

fun split_on :: "char \<Rightarrow> string \<Rightarrow> string list" where
  "split_on d [] = [[]]"
| "split_on d (c # cs) =
     (if c = d then [] # split_on d cs
      else (case split_on d cs of [] \<Rightarrow> [[c]] | p # ps \<Rightarrow> (c # p) # ps))"

definition verifyToken :: "platform \<Rightarrow> nat \<Rightarrow> string \<Rightarrow> string \<Rightarrow> AuthToken option" where
  "verifyToken P now token secret =
     (case split_on CHR ''.'' token of
        [payloadB64, sigB64] \<Rightarrow>
          (case decode_payload P payloadB64 of
             None \<Rightarrow> None
           | Some payload \<Rightarrow>
               if token_exp payload < int (now div 1000) then None
               else (case hmac_verify P secret sigB64 payload of
                       Some True \<Rightarrow> Some payload
                     | _ \<Rightarrow> None))
      | _ \<Rightarrow> None)"

section \<open>SyncRoom (sync.ts)\<close>

text \<open>The constructor restores the log and the counter from the durable store.\<close>

definition SyncRoom_constructor :: "storage \<Rightarrow> string option \<Rightarrow> SyncRoom" where
  "SyncRoom_constructor st secret =
     \<lparr>sessions = [],
      changes = (case kv_changes st of None \<Rightarrow> [] | Some storedChanges \<Rightarrow> storedChanges),
      currentVersion = (case kv_version st of None \<Rightarrow> 0 | Some storedVersion \<Rightarrow> storedVersion),
      store = st, SYNC_SECRET = secret, closed = {}, wire = [], next_ws = 0\<rparr>"

text \<open>
  A restart discards the object and constructs a new one on the same store; the network
  (what was delivered, which channels are dead) is not the object's and stays.
\<close>

definition restart :: "SyncRoom \<Rightarrow> SyncRoom" where
  "restart s =
     (SyncRoom_constructor (store s) (SYNC_SECRET s))
       \<lparr>closed := closed s, wire := wire s, next_ws := next_ws s\<rparr>"

definition send :: "ws \<Rightarrow> ServerMessage \<Rightarrow> unit action" where
  "send w message = catch (ws_send w message) (ret ())"

definition sendError :: "ws \<Rightarrow> string \<Rightarrow> string \<Rightarrow> unit action" where
  "sendError w code message = send w (MsgError code message)"

text \<open>\<open>for (const [ws, session] of this.sessions) { ... }\<close>: an iteration that raises ends the loop.\<close>

fun for_sessions :: "(ws \<times> Session \<Rightarrow> unit action) \<Rightarrow> (ws \<times> Session) list \<Rightarrow> unit action" where
  "for_sessions iter [] s = (Inr (), s)"
| "for_sessions iter (p # ps) s =
     (case iter p s of (Inl e, s') \<Rightarrow> (Inl e, s') | (Inr u, s') \<Rightarrow> for_sessions iter ps s')"

definition broadcast :: "ServerMessage \<Rightarrow> unit action" where
  "broadcast message s =
     for_sessions
       (\<lambda>(w, session). if truthy (workspaceId session)
                        then catch (ws_send w message) (ret ()) else ret ())
       (sessions s) s"

definition broadcastExcept :: "ws \<Rightarrow> ServerMessage \<Rightarrow> unit action" where
  "broadcastExcept sender message s =
     for_sessions
       (\<lambda>(w, session). if w \<noteq> sender \<and> truthy (workspaceId session)
                        then catch (ws_send w message) (ret ()) else ret ())
       (sessions s) s"

definition presenceMembers :: "(ws \<times> Session) list \<Rightarrow> PresenceMember list" where
  "presenceMembers ss =
     map (\<lambda>(w, session). \<lparr>member_accountId = accountId session, member_siteId = siteId session,
                           member_joinedAt = joinedAt session, member_lastSeen = lastSeen session\<rparr>)
       (filter (\<lambda>(w, session). accountId session \<noteq> [] \<and> truthy (workspaceId session)) ss)"

definition broadcastPresence :: "unit action" where
  "broadcastPresence s = broadcast (MsgPresence (presenceMembers (sessions s))) s"

text \<open>
  \<open>applyChanges\<close>. The loop first increments the counter, then writes the version into
  the submitted element, then pushes that element onto the log. The write raises on an
  element that is not an object, after the increment; a value that cannot be iterated
  raises before the first iteration. A raise leaves \<open>applyChanges\<close> before the two
  \<open>put\<close> calls. When the loop completes, the model returns the submitted array as the
  loop leaves it, since the callers serialise it afterwards.
\<close>

fun assign_versions :: "element list \<Rightarrow> EncryptedChange list action" where
  "assign_versions [] s = (Inr [], s)"
| "assign_versions (e # rest) s =
     (let s1 = s\<lparr>currentVersion := currentVersion s + 1\<rparr>
      in case e of
           NonObject \<Rightarrow> (Inl TypeError, s1)
         | Record change \<Rightarrow>
             (let change' = change\<lparr>version := currentVersion s1\<rparr>;
                  s2 = s1\<lparr>changes := changes s1 @ [change']\<rparr>
              in case assign_versions rest s2 of
                   (Inl x, s3) \<Rightarrow> (Inl x, s3)
                 | (Inr rest', s3) \<Rightarrow> (Inr (change' # rest'), s3)))"

definition applyChanges :: "submitted \<Rightarrow> EncryptedChange list action" where
  "applyChanges newChanges s =
     (case newChanges of
        NotIterable \<Rightarrow> (Inl TypeError, s)
      | Elements es \<Rightarrow>
          seq (assign_versions es)
            (\<lambda>stamped. seq (\<lambda>s1. storage_put_version (currentVersion s1) s1)
              (\<lambda>_. seq (\<lambda>s2. storage_put_changes (changes s2) s2)
                (\<lambda>_. ret stamped))) s)"

text \<open>
  The handlers receive the session object stored under the channel; a write to one of its
  fields is a write to the entry of the map.
\<close>

definition handleAuth :: "platform \<Rightarrow> nat \<Rightarrow> ws \<Rightarrow> Session \<Rightarrow> string \<Rightarrow> unit action" where
  "handleAuth P now w session token s =
     (case verifyToken P now token (or_else (SYNC_SECRET s) []) of
        None \<Rightarrow> sendError w ''AUTH_FAILED'' ''Invalid or expired token'' s
      | Some payload \<Rightarrow>
          (let session' = session\<lparr>accountId := token_accountId payload,
                 siteId := ''site-'' @ token_accountId payload @ ''-'' @ decimal now\<rparr>
           in send w (MsgAuthenticated (token_accountId payload))
                (s\<lparr>sessions := AList.update w session' (sessions s)\<rparr>)))"

definition handleJoin :: "ws \<Rightarrow> Session \<Rightarrow> string \<Rightarrow> unit action" where
  "handleJoin w session wid s =
     (if accountId session = [] then
        sendError w ''NOT_AUTHENTICATED'' ''Must authenticate first'' s
      else
        seq (send w (MsgJoined wid (currentVersion s))) (\<lambda>_. broadcastPresence)
          (s\<lparr>sessions := AList.update w (session\<lparr>workspaceId := Some wid\<rparr>) (sessions s)\<rparr>))"

definition handleLeave :: "ws \<Rightarrow> Session \<Rightarrow> unit action" where
  "handleLeave w session s =
     broadcastPresence
       (s\<lparr>sessions := AList.update w (session\<lparr>workspaceId := None\<rparr>) (sessions s)\<rparr>)"

definition handlePush :: "ws \<Rightarrow> Session \<Rightarrow> submitted \<Rightarrow> unit action" where
  "handlePush w session cs s =
     (if accountId session = [] \<or> \<not> truthy (workspaceId session) then
        sendError w ''NOT_JOINED'' ''Must join a workspace first'' s
      else
        seq (applyChanges cs)
          (\<lambda>stamped. seq (\<lambda>s1. send w (MsgPushed (currentVersion s1)) s1)
            (\<lambda>_ s2. broadcastExcept w (MsgChanges stamped (currentVersion s2)) s2)) s)"

definition handlePull :: "ws \<Rightarrow> Session \<Rightarrow> number \<Rightarrow> unit action" where
  "handlePull w session sinceVersion s =
     (if accountId session = [] \<or> \<not> truthy (workspaceId session) then
        sendError w ''NOT_JOINED'' ''Must join a workspace first'' s
      else
        send w (MsgChanges (filter (\<lambda>c. js_gt (version c) sinceVersion) (changes s))
                  (currentVersion s)) s)"

definition handleWebSocket :: "nat \<Rightarrow> Response action" where
  "handleWebSocket now s =
     (let server = next_ws s;
          session = \<lparr>accountId = [], siteId = [], webSocket = server, workspaceId = None,
                     joinedAt = now, lastSeen = now\<rparr>
      in (Inr (SwitchingProtocols server),
          s\<lparr>sessions := AList.update server session (sessions s), next_ws := Suc server\<rparr>))"

text \<open>
  \<open>webSocketMessage\<close>. The text received is given parsed: \<open>None\<close> when
  \<open>JSON.parse\<close> raises.
\<close>

definition dispatch :: "platform \<Rightarrow> nat \<Rightarrow> ws \<Rightarrow> Session \<Rightarrow> SyncMessage \<Rightarrow> unit action" where
  "dispatch P now w session msg =
     (case msg of
        Auth token \<Rightarrow> handleAuth P now w session token
      | Join wid \<Rightarrow> handleJoin w session wid
      | Leave \<Rightarrow> handleLeave w session
      | Push cs \<Rightarrow> handlePush w session cs
      | Pull sinceVersion \<Rightarrow> handlePull w session sinceVersion
      | Ack v \<Rightarrow> ret ())"

definition webSocketMessage :: "platform \<Rightarrow> nat \<Rightarrow> ws \<Rightarrow> SyncMessage option \<Rightarrow> unit action" where
  "webSocketMessage P now w message s =
     (case map_of (sessions s) w of
        None \<Rightarrow> (Inr (), s)
      | Some session0 \<Rightarrow>
          (let session = session0\<lparr>lastSeen := now\<rparr>
           in catch
                (case message of
                   None \<Rightarrow> (\<lambda>s1. (Inl JsonError, s1))
                 | Some msg \<Rightarrow> dispatch P now w session msg)
                (sendError w ''PARSE_ERROR'' ''Invalid message format'')
                (s\<lparr>sessions := AList.update w session (sessions s)\<rparr>)))"

definition webSocketClose :: "ws \<Rightarrow> unit action" where
  "webSocketClose w s =
     (case map_of (sessions s) w of
        None \<Rightarrow> (Inr (), s)
      | Some session \<Rightarrow> broadcastPresence (s\<lparr>sessions := AList.delete w (sessions s)\<rparr>))"

definition webSocketError :: "ws \<Rightarrow> unit action" where
  "webSocketError w s = (Inr (), s\<lparr>sessions := AList.delete w (sessions s)\<rparr>)"

definition fetch :: "platform \<Rightarrow> nat \<Rightarrow> Request \<Rightarrow> Response action" where
  "fetch P now request s =
     (if upgrade request = Some ''websocket'' then handleWebSocket now s
      else if pathname request = ''/changes'' \<and> http_method request = ''GET'' then
        (let sinceVersion = parseInt (or_else (since request) ''0'')
         in (Inr (ChangesResponse (filter (\<lambda>c. js_gt (version c) sinceVersion) (changes s))
                    (currentVersion s)), s))
      else if pathname request = ''/changes'' \<and> http_method request = ''POST'' then
        (case authorization request of
           None \<Rightarrow> (Inr (ErrorResponse ''Unauthorized'' 401), s)
         | Some authHeader \<Rightarrow>
             if take 7 authHeader \<noteq> ''Bearer '' then (Inr (ErrorResponse ''Unauthorized'' 401), s)
             else
               (case verifyToken P now (drop 7 authHeader) (or_else (SYNC_SECRET s) []) of
                  None \<Rightarrow> (Inr (ErrorResponse ''Invalid token'' 401), s)
                | Some payload \<Rightarrow>
                    (case body request of
                       None \<Rightarrow> (Inl JsonError, s)
                     | Some newChanges \<Rightarrow>
                         seq (applyChanges newChanges)
                           (\<lambda>stamped. seq (\<lambda>s1. broadcast (MsgChanges stamped (currentVersion s1)) s1)
                             (\<lambda>_ s2. (Inr (SuccessResponse (currentVersion s2)), s2))) s)))
      else (Inr NotFound, s))"

section \<open>Events of one coordinator instance\<close>

text \<open>
  The runtime delivers one event at a time to the instance: an HTTP request, a WebSocket
  message, the close or error notification of a channel, or a restart. A channel may also
  die without the instance being told yet.
\<close>

datatype event =
    Fetch nat Request
  | Message nat ws "SyncMessage option"
  | Close ws
  | SocketError ws
  | Restart
  | ChannelDies ws

definition step :: "platform \<Rightarrow> event \<Rightarrow> SyncRoom \<Rightarrow> SyncRoom" where
  "step P ev s =
     (case ev of
        Fetch now request \<Rightarrow> snd (fetch P now request s)
      | Message now w message \<Rightarrow> snd (webSocketMessage P now w message s)
      | Close w \<Rightarrow> snd (webSocketClose w s)
      | SocketError w \<Rightarrow> snd (webSocketError w s)
      | Restart \<Rightarrow> restart s
      | ChannelDies w \<Rightarrow> s\<lparr>closed := insert w (closed s)\<rparr>)"

definition run :: "platform \<Rightarrow> event list \<Rightarrow> SyncRoom \<Rightarrow> SyncRoom" where
  "run P evs s = fold (step P) evs s"

text \<open>A store that has never been written, with a script of \<open>put\<close> outcomes.\<close>

definition fresh_store :: "bool list \<Rightarrow> storage" where
  "fresh_store faults = \<lparr>kv_version = None, kv_changes = None, put_faults = faults\<rparr>"

text \<open>The state an instance constructed on a fresh store reaches through a history of events.\<close>

definition reached :: "platform \<Rightarrow> bool list \<Rightarrow> string option \<Rightarrow> event list \<Rightarrow> SyncRoom" where
  "reached P faults secret evs = run P evs (SyncRoom_constructor (fresh_store faults) secret)"


section \<open>Specification vocabulary\<close>

text \<open>
  Specification: the records of a batch with the versions \<open>v + 1\<close>, \<open>v + 2\<close>, ...
  written over whatever version the client sent, in the submitted order.
\<close>

fun stamp :: "int \<Rightarrow> EncryptedChange list \<Rightarrow> EncryptedChange list" where
  "stamp v [] = []"
| "stamp v (c # cs) = c\<lparr>version := v + 1\<rparr> # stamp (v + 1) cs"

text \<open>Specification: a submitted value that is an array of change records.\<close>

definition record_array :: "EncryptedChange list \<Rightarrow> submitted" where
  "record_array cs = Elements (map Record cs)"

text \<open>The records of an array in front of its first element that is not an object.\<close>

fun leading_records :: "element list \<Rightarrow> EncryptedChange list" where
  "leading_records [] = []"
| "leading_records (Record c # es) = c # leading_records es"
| "leading_records (NonObject # es) = []"

fun all_records :: "element list \<Rightarrow> bool" where
  "all_records [] = True"
| "all_records (Record c # es) = all_records es"
| "all_records (NonObject # es) = False"

text \<open>
  Specification: the channels a broadcast reaches, in registry order: the sessions
  selected by \<open>sel\<close> whose channel is alive.
\<close>

definition recipients :: "(ws \<Rightarrow> Session \<Rightarrow> bool) \<Rightarrow> SyncRoom \<Rightarrow> ws list" where
  "recipients sel s =
     map fst (filter (\<lambda>(w, session). sel w session \<and> w \<notin> closed s) (sessions s))"

text \<open>
  The log is in strictly increasing version order and never ahead of the counter, and
  the store is never ahead of the instance.
\<close>

definition versions_ordered :: "EncryptedChange list \<Rightarrow> int \<Rightarrow> bool" where
  "versions_ordered cs v =
     (sorted_wrt (<) (map version cs) \<and> list_all (\<lambda>c. version c \<le> v) cs)"

definition log_ordered :: "SyncRoom \<Rightarrow> bool" where
  "log_ordered s =
     (versions_ordered (changes s) (currentVersion s) \<and>
      (case kv_version (store s) of
         None \<Rightarrow> kv_changes (store s) = None
       | Some v \<Rightarrow> v \<le> currentVersion s \<and>
           (case kv_changes (store s) of None \<Rightarrow> True | Some cs \<Rightarrow> versions_ordered cs v)))"

text \<open>What a restart keeps and a pull reads: the log, the counter and the store.\<close>

definition core :: "SyncRoom \<Rightarrow> EncryptedChange list \<times> int \<times> storage" where
  "core s = (changes s, currentVersion s, store s)"

text \<open>The store holds exactly the counter and the log of the instance.\<close>

definition in_sync :: "SyncRoom \<Rightarrow> bool" where
  "in_sync s =
     (kv_version (store s) = Some (currentVersion s) \<and> kv_changes (store s) = Some (changes s))"

text \<open>Events that carry a push on either protocol.\<close>

fun is_push :: "event \<Rightarrow> bool" where
  "is_push (Message now w (Some (Push cs))) = True"
| "is_push (Fetch now request) = (http_method request = ''POST'')"
| "is_push ev = False"

section \<open>Sample data\<close>

definition change_a :: EncryptedChange where
  "change_a = \<lparr>change_id = ''a'', entityId = ''e1'', changeType = Create,
     encryptedData = ''QUJD'', nonce = ''bjE='', origin_siteId = ''site-x'',
     timestamp = ''2024-01-01T00:00:00.000Z'', version = 7\<rparr>"

definition change_b :: EncryptedChange where
  "change_b = \<lparr>change_id = ''b'', entityId = ''e1'', changeType = Update,
     encryptedData = ''REVG'', nonce = ''bjI='', origin_siteId = ''site-x'',
     timestamp = ''2024-01-01T00:00:01.000Z'', version = 0\<rparr>"

definition alice :: Session where
  "alice = \<lparr>accountId = ''acc-1'', siteId = ''site-acc-1-1000'', webSocket = 0,
     workspaceId = Some ''w1'', joinedAt = 900, lastSeen = 1000\<rparr>"

definition bob :: Session where
  "bob = \<lparr>accountId = ''acc-2'', siteId = ''site-acc-2-1100'', webSocket = 1,
     workspaceId = Some ''w1'', joinedAt = 950, lastSeen = 1100\<rparr>"

definition carol :: Session where
  "carol = \<lparr>accountId = ''acc-3'', siteId = ''site-acc-3-1200'', webSocket = 2,
     workspaceId = Some ''w1'', joinedAt = 960, lastSeen = 1200\<rparr>"

definition guest :: Session where
  "guest = \<lparr>accountId = [], siteId = [], webSocket = 3,
     workspaceId = None, joinedAt = 970, lastSeen = 970\<rparr>"

text \<open>Three joined sessions and a guest on an empty workspace; bob's channel is dead.\<close>

definition room0 :: SyncRoom where
  "room0 = \<lparr>sessions = [(0, alice), (1, bob), (2, carol), (3, guest)], changes = [],
     currentVersion = 0, store = fresh_store [], SYNC_SECRET = Some ''k'',
     closed = {1}, wire = [], next_ws = 4\<rparr>"

text \<open>The same workspace after one accepted record.\<close>

definition room1 :: SyncRoom where
  "room1 = room0\<lparr>changes := [change_a\<lparr>version := 1\<rparr>], currentVersion := 1,
     store := \<lparr>kv_version = Some 1, kv_changes = Some [change_a\<lparr>version := 1\<rparr>],
               put_faults = []\<rparr>\<rparr>"

text \<open>A store whose next write raises.\<close>

definition room0_failing :: SyncRoom where
  "room0_failing = room0\<lparr>store := fresh_store [True]\<rparr>"

text \<open>
  A runtime in which exactly the token \<open>P.S\<close> verifies under the secret \<open>k\<close>, and one
  in which nothing does.
\<close>

definition demo_platform :: platform where
  "demo_platform =
     \<lparr>decode_payload = (\<lambda>p. if p = ''P''
          then Some \<lparr>token_accountId = ''acc-1'', token_exp = 2000, token_iat = 0\<rparr> else None),
      hmac_verify = (\<lambda>secret sg payload. Some (secret = ''k'' \<and> sg = ''S''))\<rparr>"

definition no_platform :: platform where
  "no_platform = \<lparr>decode_payload = (\<lambda>p. None), hmac_verify = (\<lambda>secret sg payload. None)\<rparr>"

definition upgrade_request :: Request where
  "upgrade_request = \<lparr>upgrade = Some ''websocket'', pathname = ''/'', http_method = ''GET'',
     since = None, authorization = None, body = None\<rparr>"

text \<open>A session connects, authenticates, joins and pushes two records.\<close>

definition history1 :: "event list" where
  "history1 = [Fetch 1000 upgrade_request, Message 1000 0 (Some (Auth ''P.S'')),
     Message 1000 0 (Some (Join ''w1'')),
     Message 1000 0 (Some (Push (record_array [change_a, change_b])))]"


definition post_changes :: "string option \<Rightarrow> submitted option \<Rightarrow> Request" where
  "post_changes auth payload = \<lparr>upgrade = None, pathname = ''/changes'', http_method = ''POST'',
     since = None, authorization = auth, body = payload\<rparr>"

definition get_changes :: "string option \<Rightarrow> Request" where
  "get_changes q = \<lparr>upgrade = None, pathname = ''/changes'', http_method = ''GET'', since = q,
     authorization = None, body = None\<rparr>"

section \<open>Version assignment\<close>

text \<open>
  The loop on any array: the records in front of the first element that is not an object
  are stamped and appended; the counter has moved once more when such an element exists.
\<close>

lemma assign_versions_any:
  "assign_versions es s =
     (if all_records es then Inr (stamp (currentVersion s) (leading_records es)) else Inl TypeError,
      s\<lparr>changes := changes s @ stamp (currentVersion s) (leading_records es),
        currentVersion := currentVersion s + int (length (leading_records es))
          + (if all_records es then 0 else 1)\<rparr>)"
proof (induction es arbitrary: s)
  case Nil
  show ?case by simp
next
  case (Cons e es)
  show ?case
  proof (cases e)
    case (Record c)
    then show ?thesis by (simp add: Cons.IH Let_def add.assoc)
  next
    case NonObject
    then show ?thesis by (simp add: Let_def)
  qed
qed

lemma leading_records_map [simp]: "leading_records (map Record cs) = cs"
  by (induction cs) simp_all

lemma all_records_map [simp]: "all_records (map Record cs)"
  by (induction cs) simp_all

lemma assign_versions_eq:
  "assign_versions (map Record cs) s =
     (Inr (stamp (currentVersion s) cs),
      s\<lparr>changes := changes s @ stamp (currentVersion s) cs,
        currentVersion := currentVersion s + int (length cs)\<rparr>)"
  by (simp add: assign_versions_any)


lemma length_stamp: "length (stamp v cs) = length cs"
  by (induction cs arbitrary: v) simp_all

lemma versions_stamp: "map version (stamp v cs) = [v + 1..v + int (length cs)]"
proof (induction cs arbitrary: v)
  case Nil
  show ?case by simp
next
  case (Cons c cs)
  have "[v + 1..v + int (length (c # cs))] = (v + 1) # [v + 1 + 1..v + int (length (c # cs))]"
    by (rule upto_rec1) simp
  then show ?case by (simp add: Cons.IH add.assoc)
qed

lemma payload_stamp:
  "map (\<lambda>c. c\<lparr>version := 0\<rparr>) (stamp v cs) = map (\<lambda>c. c\<lparr>version := 0\<rparr>) cs"
  by (induction cs arbitrary: v) simp_all

lemma stamp_ignores_version: "stamp v (map (\<lambda>c. c\<lparr>version := f c\<rparr>) cs) = stamp v cs"
  by (induction cs arbitrary: v) simp_all

section \<open>applyChanges\<close>

lemmas apply_defs = applyChanges_def record_array_def assign_versions_eq seq_def ret_def
  storage_put_version_def storage_put_changes_def put_version_def put_changes_def

lemmas apply_any_defs = applyChanges_def assign_versions_any seq_def ret_def
  storage_put_version_def storage_put_changes_def put_version_def put_changes_def

text \<open>What \<open>applyChanges\<close> does to the instance apart from the store, on any value.\<close>

lemma applyChanges_frame:
  "sessions (snd (applyChanges p s)) = sessions s"
  "wire (snd (applyChanges p s)) = wire s"
  "closed (snd (applyChanges p s)) = closed s"
  "next_ws (snd (applyChanges p s)) = next_ws s"
  "SYNC_SECRET (snd (applyChanges p s)) = SYNC_SECRET s"
  by (cases p; simp add: apply_any_defs split: list.splits bool.splits prod.splits sum.splits)+

lemma applyChanges_not_iterable: "applyChanges NotIterable s = (Inl TypeError, s)"
  by (simp add: applyChanges_def)

lemma applyChanges_elements_memory:
  "changes (snd (applyChanges (Elements es) s))
     = changes s @ stamp (currentVersion s) (leading_records es)"
  "currentVersion (snd (applyChanges (Elements es) s))
     = currentVersion s + int (length (leading_records es)) + (if all_records es then 0 else 1)"
  by (simp_all add: apply_any_defs split: list.splits bool.splits prod.splits sum.splits)

lemma applyChanges_memory:
  "changes (snd (applyChanges (record_array cs) s)) = changes s @ stamp (currentVersion s) cs"
  "currentVersion (snd (applyChanges (record_array cs) s)) = currentVersion s + int (length cs)"
  by (simp_all add: record_array_def applyChanges_elements_memory)

lemma applyChanges_ok:
  assumes "True \<notin> set (take 2 (put_faults (store s)))"
  shows "applyChanges (record_array cs) s =
     (Inr (stamp (currentVersion s) cs),
      s\<lparr>changes := changes s @ stamp (currentVersion s) cs,
        currentVersion := currentVersion s + int (length cs),
        store := \<lparr>kv_version = Some (currentVersion s + int (length cs)),
                  kv_changes = Some (changes s @ stamp (currentVersion s) cs),
                  put_faults = drop 2 (put_faults (store s))\<rparr>\<rparr>)"
proof (cases "put_faults (store s)")
  case Nil
  then show ?thesis by (simp add: apply_defs)
next
  case (Cons a fs)
  note outer = Cons
  show ?thesis
  proof (cases fs)
    case Nil
    with outer assms show ?thesis by (simp add: apply_defs)
  next
    case (Cons b gs)
    with outer assms show ?thesis by (simp add: apply_defs)
  qed
qed

lemma applyChanges_raises:
  assumes "True \<in> set (take 2 (put_faults (store s)))"
  shows "fst (applyChanges (record_array cs) s) = Inl StorageError"
proof (cases "put_faults (store s)")
  case Nil
  with assms show ?thesis by simp
next
  case (Cons a fs)
  note outer = Cons
  show ?thesis
  proof (cases fs)
    case Nil
    with outer assms show ?thesis by (simp add: apply_defs)
  next
    case (Cons b gs)
    with outer assms show ?thesis by (cases a; cases b) (simp_all add: apply_defs)
  qed
qed



section \<open>Sending and broadcasting\<close>

lemma send_eq:
  "send w message s =
     (Inr (), s\<lparr>wire := wire s @ (if w \<in> closed s then [] else [(w, message)])\<rparr>)"
  by (simp add: send_def catch_def ws_send_def ret_def)

lemma for_sessions_catch:
  "for_sessions
     (\<lambda>(w, session). if sel w session then catch (ws_send w message) (ret ()) else ret ()) ps s =
   (Inr (), s\<lparr>wire := wire s @
       map (\<lambda>w. (w, message))
         (map fst (filter (\<lambda>(w, session). sel w session \<and> w \<notin> closed s) ps))\<rparr>)"
proof (induction ps arbitrary: s)
  case Nil
  show ?case by simp
next
  case (Cons p ps)
  obtain w session where p: "p = (w, session)" by (cases p)
  show ?case
    by (simp add: p Cons.IH catch_def ws_send_def ret_def)
qed

lemma broadcastExcept_eq:
  "broadcastExcept sender message s =
     (Inr (), s\<lparr>wire := wire s @ map (\<lambda>w. (w, message))
        (recipients (\<lambda>w session. w \<noteq> sender \<and> truthy (workspaceId session)) s)\<rparr>)"
  unfolding broadcastExcept_def recipients_def by (rule for_sessions_catch)

lemma broadcast_eq:
  "broadcast message s =
     (Inr (), s\<lparr>wire := wire s @ map (\<lambda>w. (w, message))
        (recipients (\<lambda>w session. truthy (workspaceId session)) s)\<rparr>)"
  unfolding broadcast_def recipients_def by (rule for_sessions_catch)

section \<open>The log stays ordered in every reachable state\<close>

lemma log_ordered_core:
  assumes "core s' = core s"
  shows "log_ordered s' = log_ordered s"
proof -
  have eqs: "changes s' = changes s" "currentVersion s' = currentVersion s" "store s' = store s"
    using assms by (simp_all add: core_def)
  show ?thesis unfolding log_ordered_def eqs by (rule refl)
qed

lemma log_ordered_same:
  assumes "log_ordered s" and "core s' = core s"
  shows "log_ordered s'"
  using log_ordered_core [OF assms(2)] assms(1) by simp

lemma core_send [simp]: "core (snd (send w m s)) = core s"
  by (simp add: send_eq core_def)

lemma core_sendError [simp]: "core (snd (sendError w c m s)) = core s"
  by (simp add: sendError_def)

lemma core_broadcast [simp]: "core (snd (broadcast m s)) = core s"
  by (simp add: broadcast_eq core_def)

lemma core_broadcastExcept [simp]: "core (snd (broadcastExcept w m s)) = core s"
  by (simp add: broadcastExcept_eq core_def)

lemma core_broadcastPresence [simp]: "core (snd (broadcastPresence s)) = core s"
  by (simp add: broadcastPresence_def)

lemma core_sessions_update [simp]: "core (s\<lparr>sessions := x\<rparr>) = core s"
  by (simp add: core_def)

lemma core_handleAuth [simp]: "core (snd (handleAuth P now w session token s)) = core s"
  by (simp add: handleAuth_def Let_def split: option.splits)

lemma core_wire_update [simp]: "core (s\<lparr>wire := x\<rparr>) = core s"
  by (simp add: core_def)

lemma core_handleJoin [simp]: "core (snd (handleJoin w session wid s)) = core s"
proof (cases "accountId session = []")
  case True
  then show ?thesis by (simp add: handleJoin_def)
next
  case False
  let ?s1 = "s\<lparr>sessions := AList.update w (session\<lparr>workspaceId := Some wid\<rparr>) (sessions s)\<rparr>"
  obtain s2 where s2: "send w (MsgJoined wid (currentVersion s)) ?s1 = (Inr (), s2)"
    by (simp add: send_eq)
  have "core s2 = core ?s1"
    using core_send [of w "MsgJoined wid (currentVersion s)" ?s1] s2 by simp
  then have "core (snd (broadcastPresence s2)) = core s" by simp
  with False s2 show ?thesis by (simp add: handleJoin_def seq_def)
qed

lemma core_handleLeave [simp]: "core (snd (handleLeave w session s)) = core s"
  by (simp add: handleLeave_def)

lemma core_handlePull [simp]: "core (snd (handlePull w session v s)) = core s"
  by (simp add: handlePull_def)

lemma versions_ordered_append:
  assumes "versions_ordered xs v"
  shows "versions_ordered (xs @ stamp v cs) (v + int (length cs))"
proof -
  have old: "\<forall>x\<in>set xs. version x \<le> v"
    using assms by (simp add: versions_ordered_def list_all_iff)
  have new: "\<forall>y\<in>set (stamp v cs). v < version y \<and> version y \<le> v + int (length cs)"
  proof
    fix y assume "y \<in> set (stamp v cs)"
    then have "version y \<in> set (map version (stamp v cs))" by simp
    then show "v < version y \<and> version y \<le> v + int (length cs)"
      by (simp add: versions_stamp)
  qed
  have "sorted_wrt (<) (map version xs @ map version (stamp v cs))"
    unfolding sorted_wrt_append
    using assms old new by (auto simp: versions_ordered_def versions_stamp)
  moreover have "list_all (\<lambda>c. version c \<le> v + int (length cs)) (xs @ stamp v cs)"
    using old new by (auto simp: list_all_iff)
  ultimately show ?thesis by (simp add: versions_ordered_def)
qed

lemma versions_ordered_mono: "versions_ordered xs v \<Longrightarrow> v \<le> v' \<Longrightarrow> versions_ordered xs v'"
  by (auto simp: versions_ordered_def list_all_iff)

text \<open>The two writes, from any state in which the loop may have left the instance.\<close>

lemma log_ordered_persist:
  assumes "log_ordered s"
  shows "log_ordered (snd (seq (\<lambda>s1. storage_put_version (currentVersion s1) s1)
           (\<lambda>_. seq (\<lambda>s2. storage_put_changes (changes s2) s2) (\<lambda>_. ret stamped)) s))"
proof -
  have mem: "versions_ordered (changes s) (currentVersion s)"
    using assms by (simp add: log_ordered_def)
  have st: "case kv_version (store s) of
         None \<Rightarrow> kv_changes (store s) = None
       | Some v \<Rightarrow> v \<le> currentVersion s \<and>
           (case kv_changes (store s) of None \<Rightarrow> True | Some cs \<Rightarrow> versions_ordered cs v)"
    using assms by (simp add: log_ordered_def)
  have old: "case kv_changes (store s) of None \<Rightarrow> True
       | Some l \<Rightarrow> versions_ordered l (currentVersion s)"
    using st by (auto split: option.splits intro: versions_ordered_mono)
  note defs = seq_def ret_def storage_put_version_def storage_put_changes_def
    put_version_def put_changes_def log_ordered_def
  show ?thesis
  proof (cases "put_faults (store s)")
    case Nil
    then show ?thesis using mem by (simp add: defs)
  next
    case (Cons a fs)
    note outer = Cons
    show ?thesis
    proof (cases a)
      case True
      with outer mem st show ?thesis
        by (auto simp: defs split: option.splits)
    next
      case False
      note a = False
      show ?thesis
      proof (cases fs)
        case Nil
        with outer a mem show ?thesis by (simp add: defs)
      next
        case (Cons b gs)
        with outer a mem old show ?thesis
          by (cases b) (auto simp: defs split: option.splits)
      qed
    qed
  qed
qed

lemma log_ordered_assign_versions:
  assumes "log_ordered s"
  shows "log_ordered (snd (assign_versions es s))"
proof -
  let ?l = "leading_records es"
  let ?v = "currentVersion s + int (length ?l) + (if all_records es then 0 else 1)"
  have "versions_ordered (changes s @ stamp (currentVersion s) ?l)
          (currentVersion s + int (length ?l))"
    using assms by (simp add: log_ordered_def versions_ordered_append)
  then have mem: "versions_ordered (changes s @ stamp (currentVersion s) ?l) ?v"
    by (rule versions_ordered_mono) simp
  have le: "currentVersion s \<le> ?v" by simp
  have st: "case kv_version (store s) of
         None \<Rightarrow> kv_changes (store s) = None
       | Some v \<Rightarrow> v \<le> currentVersion s \<and>
           (case kv_changes (store s) of None \<Rightarrow> True | Some cs \<Rightarrow> versions_ordered cs v)"
    using assms by (simp add: log_ordered_def)
  have st': "case kv_version (store s) of
         None \<Rightarrow> kv_changes (store s) = None
       | Some v \<Rightarrow> v \<le> ?v \<and>
           (case kv_changes (store s) of None \<Rightarrow> True | Some cs \<Rightarrow> versions_ordered cs v)"
    using st le by (auto split: option.splits)
  show ?thesis
    using mem st' by (auto simp: assign_versions_any log_ordered_def split: option.splits)
qed

lemma log_ordered_applyChanges:
  assumes "log_ordered s"
  shows "log_ordered (snd (applyChanges p s))"
proof (cases p)
  case NotIterable
  with assms show ?thesis by (simp add: applyChanges_def)
next
  case (Elements es)
  obtain r s1 where r: "assign_versions es s = (r, s1)" by (cases "assign_versions es s")
  have s1: "log_ordered s1"
    using log_ordered_assign_versions [OF assms, of es] r by simp
  show ?thesis
  proof (cases r)
    case (Inl x)
    with r s1 Elements show ?thesis by (simp add: applyChanges_def seq_def [of "assign_versions es"])
  next
    case (Inr stamped)
    with r Elements log_ordered_persist [OF s1, of stamped] show ?thesis
      by (simp add: applyChanges_def seq_def [of "assign_versions es"])
  qed
qed

lemma core_handlePush:
  "core (snd (handlePush w session cs s)) = core s
   \<or> core (snd (handlePush w session cs s)) = core (snd (applyChanges cs s))"
proof (cases "accountId session = [] \<or> \<not> truthy (workspaceId session)")
  case True
  then have "handlePush w session cs s = sendError w ''NOT_JOINED'' ''Must join a workspace first'' s"
    by (simp add: handlePush_def)
  then show ?thesis by simp
next
  case False
  obtain r s1 where r: "applyChanges cs s = (r, s1)" by (cases "applyChanges cs s")
  with False show ?thesis
    by (cases r) (simp_all add: handlePush_def seq_def send_eq broadcastExcept_eq core_def)
qed

lemma log_ordered_handlePush:
  assumes "log_ordered s"
  shows "log_ordered (snd (handlePush w session cs s))"
proof -
  have "core (snd (handlePush w session cs s)) = core s
     \<or> core (snd (handlePush w session cs s)) = core (snd (applyChanges cs s))"
    by (rule core_handlePush)
  then show ?thesis
  proof
    assume "core (snd (handlePush w session cs s)) = core s"
    with assms show ?thesis by (rule log_ordered_same)
  next
    assume "core (snd (handlePush w session cs s)) = core (snd (applyChanges cs s))"
    with log_ordered_applyChanges [OF assms] show ?thesis by (rule log_ordered_same)
  qed
qed

lemma log_ordered_sendError:
  "log_ordered s \<Longrightarrow> log_ordered (snd (sendError w c m s))"
  by (erule log_ordered_same) simp

lemma log_ordered_dispatch:
  assumes "log_ordered s"
  shows "log_ordered (snd (dispatch P now w session msg s))"
proof (cases msg)
  case (Auth token)
  have "log_ordered (snd (handleAuth P now w session token s))"
    using assms by (rule log_ordered_same) simp
  with Auth show ?thesis by (simp add: dispatch_def)
next
  case (Join wid)
  have "log_ordered (snd (handleJoin w session wid s))"
    using assms by (rule log_ordered_same) simp
  with Join show ?thesis by (simp add: dispatch_def)
next
  case Leave
  have "log_ordered (snd (handleLeave w session s))"
    using assms by (rule log_ordered_same) simp
  with Leave show ?thesis by (simp add: dispatch_def)
next
  case (Push cs)
  with assms show ?thesis by (simp add: dispatch_def log_ordered_handlePush)
next
  case (Pull v)
  have "log_ordered (snd (handlePull w session v s))"
    using assms by (rule log_ordered_same) simp
  with Pull show ?thesis by (simp add: dispatch_def)
next
  case (Ack v)
  with assms show ?thesis by (simp add: dispatch_def ret_def)
qed

lemma log_ordered_webSocketMessage:
  assumes "log_ordered s"
  shows "log_ordered (snd (webSocketMessage P now w message s))"
proof (cases "map_of (sessions s) w")
  case None
  then show ?thesis using assms by (simp add: webSocketMessage_def)
next
  case (Some session0)
  note found = Some
  let ?s1 = "s\<lparr>sessions := AList.update w (session0\<lparr>lastSeen := now\<rparr>) (sessions s)\<rparr>"
  have s1: "log_ordered ?s1" using assms by (rule log_ordered_same) simp
  show ?thesis
  proof (cases message)
    case None
    with found log_ordered_sendError [OF s1] show ?thesis
      by (simp add: webSocketMessage_def catch_def)
  next
    case (Some msg)
    have d: "log_ordered (snd (dispatch P now w (session0\<lparr>lastSeen := now\<rparr>) msg ?s1))"
      using s1 by (rule log_ordered_dispatch)
    obtain r s2 where r: "dispatch P now w (session0\<lparr>lastSeen := now\<rparr>) msg ?s1 = (r, s2)"
      by (cases "dispatch P now w (session0\<lparr>lastSeen := now\<rparr>) msg ?s1")
    with d have s2: "log_ordered s2" by simp
    from r Some found s2 log_ordered_sendError [OF s2] show ?thesis
      by (cases r) (simp_all add: webSocketMessage_def catch_def)
  qed
qed

lemma log_ordered_fetch:
  assumes "log_ordered s"
  shows "log_ordered (snd (fetch P now request s))"
proof -
  have post: "log_ordered (snd (seq (applyChanges newChanges)
        (\<lambda>stamped. seq (\<lambda>s1. broadcast (MsgChanges stamped (currentVersion s1)) s1)
           (\<lambda>_ s2. (Inr (SuccessResponse (currentVersion s2)), s2))) s))" for newChanges
  proof (cases "applyChanges newChanges s")
    case (Pair r s1)
    have "log_ordered (snd (applyChanges newChanges s))"
      using assms by (rule log_ordered_applyChanges)
    with Pair have s1: "log_ordered s1" by simp
    have upd: "log_ordered (s1\<lparr>wire := x\<rparr>) = log_ordered s1" for x
      by (rule log_ordered_core) (simp add: core_def)
    from Pair s1 show ?thesis
      by (cases r) (simp_all add: seq_def broadcast_eq upd)
  qed
  have ws: "log_ordered (snd (handleWebSocket now s))"
    using assms by (rule log_ordered_same) (simp add: handleWebSocket_def Let_def core_def)
  show ?thesis
    using assms post ws
    by (simp add: fetch_def Let_def split: option.splits)
qed

lemma log_ordered_restart: "log_ordered s \<Longrightarrow> log_ordered (restart s)"
  by (auto simp: log_ordered_def restart_def SyncRoom_constructor_def versions_ordered_def
      split: option.splits)

lemma log_ordered_step:
  assumes "log_ordered s"
  shows "log_ordered (step P ev s)"
proof (cases ev)
  case (Fetch now request)
  then show ?thesis using assms by (simp add: step_def log_ordered_fetch)
next
  case (Message now w message)
  then show ?thesis using assms by (simp add: step_def log_ordered_webSocketMessage)
next
  case (Close w)
  have "core (snd (webSocketClose w s)) = core s"
    by (simp add: webSocketClose_def split: option.splits)
  with assms have "log_ordered (snd (webSocketClose w s))" by (rule log_ordered_same)
  with Close show ?thesis by (simp add: step_def)
next
  case (SocketError w)
  have "core (snd (webSocketError w s)) = core s"
    by (simp add: webSocketError_def)
  with assms have "log_ordered (snd (webSocketError w s))" by (rule log_ordered_same)
  with SocketError show ?thesis by (simp add: step_def)
next
  case Restart
  then show ?thesis using assms by (simp add: step_def log_ordered_restart)
next
  case (ChannelDies w)
  have "core (s\<lparr>closed := insert w (closed s)\<rparr>) = core s"
    by (simp add: core_def)
  with assms have "log_ordered (s\<lparr>closed := insert w (closed s)\<rparr>)" by (rule log_ordered_same)
  with ChannelDies show ?thesis by (simp add: step_def)
qed

lemma log_ordered_run: "log_ordered s \<Longrightarrow> log_ordered (run P evs s)"
  unfolding run_def by (induction evs arbitrary: s) (simp_all add: log_ordered_step)

lemma log_ordered_initial: "log_ordered (SyncRoom_constructor (fresh_store faults) secret)"
  by (simp add: log_ordered_def SyncRoom_constructor_def fresh_store_def versions_ordered_def)

lemma reachable_sorted:
  "sorted_wrt (<) (map version
     (changes (run P evs (SyncRoom_constructor (fresh_store faults) secret))))"
  using log_ordered_run [OF log_ordered_initial, of P evs faults secret]
  by (simp add: log_ordered_def versions_ordered_def)

lemma sorted_wrt_filter_map:
  "sorted_wrt R (map f xs) \<Longrightarrow> sorted_wrt R (map f (filter Q xs))"
  by (induction xs) auto

section \<open>Sequences of pushes\<close>




section \<open>Events that do not push leave the log, the counter and the store alone\<close>

lemma core_dispatch_quiet:
  assumes "\<forall>cs. msg \<noteq> Push cs"
  shows "core (snd (dispatch P now w session msg s)) = core s"
  using assms by (cases msg) (simp_all add: dispatch_def ret_def)

lemma core_webSocketMessage_quiet:
  assumes "\<forall>cs. message \<noteq> Some (Push cs)"
  shows "core (snd (webSocketMessage P now w message s)) = core s"
proof (cases "map_of (sessions s) w")
  case None
  then show ?thesis by (simp add: webSocketMessage_def)
next
  case (Some session0)
  note found = Some
  let ?s1 = "s\<lparr>sessions := AList.update w (session0\<lparr>lastSeen := now\<rparr>) (sessions s)\<rparr>"
  show ?thesis
  proof (cases message)
    case None
    with found show ?thesis by (simp add: webSocketMessage_def catch_def)
  next
    case (Some msg)
    with assms have quiet: "\<forall>cs. msg \<noteq> Push cs" by simp
    obtain r s2 where r: "dispatch P now w (session0\<lparr>lastSeen := now\<rparr>) msg ?s1 = (r, s2)"
      by (cases "dispatch P now w (session0\<lparr>lastSeen := now\<rparr>) msg ?s1")
    have "core s2 = core s"
      using core_dispatch_quiet [OF quiet, of P now w "session0\<lparr>lastSeen := now\<rparr>" ?s1] r
      by simp
    with r Some found show ?thesis
      by (cases r) (simp_all add: webSocketMessage_def catch_def)
  qed
qed

lemma core_fetch_quiet:
  "http_method request \<noteq> ''POST'' \<Longrightarrow> core (snd (fetch P now request s)) = core s"
  by (simp add: fetch_def handleWebSocket_def Let_def core_def)

lemma core_restart_in_sync: "in_sync s \<Longrightarrow> core (restart s) = core s"
  by (simp add: in_sync_def restart_def SyncRoom_constructor_def core_def)

lemma in_sync_core:
  assumes "core s' = core s"
  shows "in_sync s' = in_sync s"
proof -
  have eqs: "changes s' = changes s" "currentVersion s' = currentVersion s" "store s' = store s"
    using assms by (simp_all add: core_def)
  show ?thesis unfolding in_sync_def eqs by (rule refl)
qed

lemma core_step_quiet:
  assumes "\<not> is_push ev" and "in_sync s"
  shows "core (step P ev s) = core s"
proof (cases ev)
  case (Fetch now request)
  with assms show ?thesis by (simp add: step_def core_fetch_quiet)
next
  case (Message now w message)
  with assms have "\<forall>cs. message \<noteq> Some (Push cs)" by auto
  with Message show ?thesis by (simp add: step_def core_webSocketMessage_quiet)
next
  case (Close w)
  then show ?thesis by (simp add: step_def webSocketClose_def split: option.splits)
next
  case (SocketError w)
  then show ?thesis by (simp add: step_def webSocketError_def)
next
  case Restart
  with assms show ?thesis by (simp add: step_def core_restart_in_sync)
next
  case (ChannelDies w)
  then show ?thesis by (simp add: step_def core_def)
qed

lemma core_run_quiet:
  "list_all (\<lambda>ev. \<not> is_push ev) evs \<Longrightarrow> in_sync s \<Longrightarrow> core (run P evs s) = core s"
proof (induction evs arbitrary: s)
  case Nil
  show ?case by (simp add: run_def)
next
  case (Cons ev evs)
  from Cons.prems have quiet: "\<not> is_push ev" and rest: "list_all (\<lambda>ev. \<not> is_push ev) evs"
    by simp_all
  have c: "core (step P ev s) = core s" using quiet Cons.prems(2) by (rule core_step_quiet)
  have "in_sync (step P ev s)" using in_sync_core [OF c] Cons.prems(2) by simp
  with rest have "core (run P evs (step P ev s)) = core (step P ev s)" by (rule Cons.IH)
  with c show ?case by (simp add: run_def)
qed

lemma applyChanges_in_sync:
  assumes "applyChanges p s = (Inr stamped, s')"
  shows "in_sync s'"
proof (cases p)
  case NotIterable
  with assms show ?thesis by (simp add: applyChanges_def)
next
  case (Elements es)
  have all: "all_records es"
  proof (rule ccontr)
    assume "\<not> all_records es"
    then have "fst (applyChanges (Elements es) s) = Inl TypeError"
      by (simp add: applyChanges_def seq_def assign_versions_any)
    with assms Elements show False by simp
  qed
  have p: "p = record_array (leading_records es)"
  proof -
    have "es = map Record (leading_records es)" if "all_records es" for es
      using that by (induction es rule: all_records.induct) simp_all
    with all Elements show ?thesis by (simp add: record_array_def)
  qed
  have "fst (applyChanges (record_array (leading_records es)) s) \<noteq> Inl StorageError"
    using assms p by simp
  then have ok: "True \<notin> set (take 2 (put_faults (store s)))"
    using applyChanges_raises [of s "leading_records es"] by blast
  show ?thesis
    using applyChanges_ok [OF ok, of "leading_records es"] assms p by (auto simp: in_sync_def)
qed

section \<open>Claims\<close>



text \<open>
  C2. A push by an authenticated and joined session that submits an array of \<open>k\<close>
  change records and whose writes the store accepts: the records are appended in the submitted order, carrying the versions
  \<open>currentVersion + 1, ..., currentVersion + k\<close> in place of whatever version the client
  sent and otherwise unchanged; \<open>currentVersion\<close> grows by \<open>k\<close>; the sender is sent
  \<open>pushed\<close> with the new \<open>currentVersion\<close>, and every other joined session the
  stamped records.
\<close>

theorem handlePush_accepted:
  assumes "accountId session \<noteq> []" and "truthy (workspaceId session)"
    and "True \<notin> set (take 2 (put_faults (store s)))"
  shows "fst (handlePush w session (record_array cs) s) = Inr ()
    \<and> changes (snd (handlePush w session (record_array cs) s)) = changes s @ stamp (currentVersion s) cs
    \<and> map version (stamp (currentVersion s) cs)
        = [currentVersion s + 1..currentVersion s + int (length cs)]
    \<and> map (\<lambda>c. c\<lparr>version := 0\<rparr>) (stamp (currentVersion s) cs) = map (\<lambda>c. c\<lparr>version := 0\<rparr>) cs
    \<and> stamp (currentVersion s) (map (\<lambda>c. c\<lparr>version := forged c\<rparr>) cs) = stamp (currentVersion s) cs
    \<and> currentVersion (snd (handlePush w session (record_array cs) s)) = currentVersion s + int (length cs)
    \<and> wire (snd (handlePush w session (record_array cs) s)) =
        wire s
        @ (if w \<in> closed s then [] else [(w, MsgPushed (currentVersion s + int (length cs)))])
        @ map (\<lambda>w'. (w', MsgChanges (stamp (currentVersion s) cs) (currentVersion s + int (length cs))))
            (recipients (\<lambda>w' session'. w' \<noteq> w \<and> truthy (workspaceId session')) s)"
  using assms
  by (simp add: handlePush_def seq_def applyChanges_ok send_eq broadcastExcept_eq
      versions_stamp payload_stamp stamp_ignores_version recipients_def)

theorem handlePush_accepted_witness:
  "accountId alice \<noteq> [] \<and> truthy (workspaceId alice)
   \<and> True \<notin> set (take 2 (put_faults (store room0)))
   \<and> fst (handlePush 0 alice (record_array [change_a, change_b]) room0) = Inr ()
   \<and> changes (snd (handlePush 0 alice (record_array [change_a, change_b]) room0))
       = [change_a\<lparr>version := 1\<rparr>, change_b\<lparr>version := 2\<rparr>]
   \<and> currentVersion (snd (handlePush 0 alice (record_array [change_a, change_b]) room0)) = 2
   \<and> wire (snd (handlePush 0 alice (record_array [change_a, change_b]) room0))
       = [(0, MsgPushed 2),
          (2, MsgChanges [change_a\<lparr>version := 1\<rparr>, change_b\<lparr>version := 2\<rparr>] 2)]"
  using handlePush_accepted [where session = alice and s = room0 and w = 0
      and cs = "[change_a, change_b]"]
  by (simp add: alice_def bob_def carol_def guest_def room0_def fresh_store_def recipients_def)

text \<open>
  C8. A broadcast never raises, and it hands the message to every selected session whose
  own channel is alive, once and in registry order: a dead channel elsewhere in the
  registry changes nothing for the others, and nothing else in the state changes.
\<close>

theorem broadcast_isolates_failures:
  "broadcastExcept sender message s =
     (Inr (), s\<lparr>wire := wire s @ map (\<lambda>w. (w, message))
        (recipients (\<lambda>w session. w \<noteq> sender \<and> truthy (workspaceId session)) s)\<rparr>)
   \<and> broadcast message s =
     (Inr (), s\<lparr>wire := wire s @ map (\<lambda>w. (w, message))
        (recipients (\<lambda>w session. truthy (workspaceId session)) s)\<rparr>)
   \<and> (\<forall>w session. (w, session) \<in> set (sessions s) \<and> w \<noteq> sender
         \<and> truthy (workspaceId session) \<and> w \<notin> closed s
       \<longrightarrow> (w, message) \<in> set (drop (length (wire s))
               (wire (snd (broadcastExcept sender message s)))))
   \<and> (\<forall>w session. (w, session) \<in> set (sessions s)
         \<and> truthy (workspaceId session) \<and> w \<notin> closed s
       \<longrightarrow> (w, message) \<in> set (drop (length (wire s))
               (wire (snd (broadcast message s)))))"
proof -
  have mem: "(w, message) \<in> set (map (\<lambda>w. (w, message)) (recipients sel s))"
    if "(w, session) \<in> set (sessions s)" "sel w session" "w \<notin> closed s" for w session sel
  proof -
    from that have "(w, session) \<in>
        set (filter (\<lambda>(w, session). sel w session \<and> w \<notin> closed s) (sessions s))"
      by simp
    then have "fst (w, session) \<in> set (recipients sel s)"
      unfolding recipients_def set_map by (rule imageI)
    then show ?thesis by simp
  qed
  have wire1: "drop (length (wire s)) (wire (snd (broadcastExcept sender message s)))
      = map (\<lambda>w. (w, message))
          (recipients (\<lambda>w session. w \<noteq> sender \<and> truthy (workspaceId session)) s)"
    by (simp add: broadcastExcept_eq)
  have wire2: "drop (length (wire s)) (wire (snd (broadcast message s)))
      = map (\<lambda>w. (w, message)) (recipients (\<lambda>w session. truthy (workspaceId session)) s)"
    by (simp add: broadcast_eq)
  have c1: "\<forall>w session. (w, session) \<in> set (sessions s) \<and> w \<noteq> sender
         \<and> truthy (workspaceId session) \<and> w \<notin> closed s
       \<longrightarrow> (w, message) \<in> set (drop (length (wire s))
               (wire (snd (broadcastExcept sender message s))))"
    unfolding wire1
    using mem [where sel = "\<lambda>w session. w \<noteq> sender \<and> truthy (workspaceId session)"]
    by blast
  have c2: "\<forall>w session. (w, session) \<in> set (sessions s)
         \<and> truthy (workspaceId session) \<and> w \<notin> closed s
       \<longrightarrow> (w, message) \<in> set (drop (length (wire s))
               (wire (snd (broadcast message s))))"
    unfolding wire2
    using mem [where sel = "\<lambda>w session. truthy (workspaceId session)"]
    by blast
  show ?thesis
    using broadcastExcept_eq [of sender message s] broadcast_eq [of message s] c1 c2
    by (intro conjI)
qed

theorem broadcast_isolates_failures_witness:
  "(2, carol) \<in> set (sessions room0) \<and> 2 \<noteq> (0 :: ws) \<and> truthy (workspaceId carol)
   \<and> 2 \<notin> closed room0 \<and> 1 \<in> closed room0
   \<and> (2, MsgPushed 5) \<in> set (drop (length (wire room0))
        (wire (snd (broadcastExcept 0 (MsgPushed 5) room0))))
   \<and> wire (snd (broadcastExcept 0 (MsgPushed 5) room0)) = [(2, MsgPushed 5)]
   \<and> wire (snd (broadcast (MsgPushed 5) room0)) = [(0, MsgPushed 5), (2, MsgPushed 5)]"
  using broadcast_isolates_failures [of 0 "MsgPushed 5" room0]
  by (simp add: alice_def bob_def carol_def guest_def room0_def fresh_store_def recipients_def)

text \<open>
  C3. In every state an instance can reach from a fresh store, a pull by an authenticated
  and joined session with \<open>sinceVersion = v\<close> sends that session exactly the log records
  whose version exceeds \<open>v\<close>, in log order, which is strictly increasing version order,
  together with \<open>currentVersion\<close>. Nothing but the delivery record changes (log, counter,
  store and registry stay), so the same pull repeated sends the same message again.
\<close>

theorem handlePull_suffix:
  assumes "accountId session \<noteq> []" and "truthy (workspaceId session)"
  shows "handlePull w session (Num v) (reached P faults secret evs) =
      (Inr (), (reached P faults secret evs)
         \<lparr>wire := wire (reached P faults secret evs) @
            (if w \<in> closed (reached P faults secret evs) then []
             else [(w, MsgChanges (filter (\<lambda>c. v < version c) (changes (reached P faults secret evs)))
                        (currentVersion (reached P faults secret evs)))])\<rparr>)
    \<and> sorted_wrt (<)
         (map version (filter (\<lambda>c. v < version c) (changes (reached P faults secret evs))))
    \<and> wire (snd (handlePull w session (Num v)
               (snd (handlePull w session (Num v) (reached P faults secret evs))))) =
       wire (reached P faults secret evs) @
         (if w \<in> closed (reached P faults secret evs) then []
          else [(w, MsgChanges (filter (\<lambda>c. v < version c) (changes (reached P faults secret evs)))
                     (currentVersion (reached P faults secret evs)))]) @
         (if w \<in> closed (reached P faults secret evs) then []
          else [(w, MsgChanges (filter (\<lambda>c. v < version c) (changes (reached P faults secret evs)))
                     (currentVersion (reached P faults secret evs)))])"
proof -
  let ?s = "reached P faults secret evs"
  have pull: "handlePull w session (Num v) s =
      (Inr (), s\<lparr>wire := wire s @
         (if w \<in> closed s then []
          else [(w, MsgChanges (filter (\<lambda>c. v < version c) (changes s)) (currentVersion s))])\<rparr>)"
    for s
    using assms by (simp add: handlePull_def send_eq)
  have "sorted_wrt (<) (map version (changes ?s))"
    unfolding reached_def by (rule reachable_sorted)
  then have sorted: "sorted_wrt (<) (map version (filter (\<lambda>c. v < version c) (changes ?s)))"
    by (rule sorted_wrt_filter_map)
  have twice: "wire (snd (handlePull w session (Num v) (snd (handlePull w session (Num v) ?s)))) =
       wire ?s @
         (if w \<in> closed ?s then []
          else [(w, MsgChanges (filter (\<lambda>c. v < version c) (changes ?s)) (currentVersion ?s))]) @
         (if w \<in> closed ?s then []
          else [(w, MsgChanges (filter (\<lambda>c. v < version c) (changes ?s)) (currentVersion ?s))])"
    by (simp add: pull)
  from pull [of ?s] sorted twice show ?thesis by (intro conjI)
qed

text \<open>The sample history, evaluated.\<close>

lemma history1_state:
  "reached demo_platform [] (Some ''k'') history1 =
  \<lparr>sessions = [(0, alice\<lparr>joinedAt := 1000\<rparr>)],
   changes = [change_a\<lparr>version := 1\<rparr>, change_b\<lparr>version := 2\<rparr>],
   currentVersion = 2,
   store = \<lparr>kv_version = Some 2,
             kv_changes = Some [change_a\<lparr>version := 1\<rparr>, change_b\<lparr>version := 2\<rparr>],
             put_faults = []\<rparr>,
   SYNC_SECRET = Some ''k'', closed = {},
   wire = [(0, MsgAuthenticated ''acc-1''), (0, MsgJoined ''w1'' 0),
           (0, MsgPresence [\<lparr>member_accountId = ''acc-1'', member_siteId = ''site-acc-1-1000'',
                              member_joinedAt = 1000, member_lastSeen = 1000\<rparr>]),
           (0, MsgPushed 2)],
   next_ws = 1\<rparr>"
  by (simp add: reached_def run_def history1_def step_def fetch_def upgrade_request_def
      handleWebSocket_def SyncRoom_constructor_def fresh_store_def webSocketMessage_def
      dispatch_def catch_def handleAuth_def verifyToken_def demo_platform_def or_else_def
      send_eq handleJoin_def seq_def broadcastPresence_def broadcast_def presenceMembers_def
      ws_send_def ret_def handlePush_def applyChanges_def record_array_def storage_put_version_def
      storage_put_changes_def put_version_def put_changes_def broadcastExcept_def
      decimal.simps char_of_def bit_iff_odd alice_def change_a_def change_b_def Let_def)

theorem handlePull_suffix_witness:
  "accountId (alice\<lparr>joinedAt := 1000\<rparr>) \<noteq> [] \<and> truthy (workspaceId (alice\<lparr>joinedAt := 1000\<rparr>))
   \<and> map_of (sessions (reached demo_platform [] (Some ''k'') history1)) 0
       = Some (alice\<lparr>joinedAt := 1000\<rparr>)
   \<and> changes (reached demo_platform [] (Some ''k'') history1)
       = [change_a\<lparr>version := 1\<rparr>, change_b\<lparr>version := 2\<rparr>]
   \<and> drop 4 (wire (snd (handlePull 0 (alice\<lparr>joinedAt := 1000\<rparr>) (Num 1)
        (reached demo_platform [] (Some ''k'') history1))))
       = [(0, MsgChanges [change_b\<lparr>version := 2\<rparr>] 2)]"
proof -
  have j: "accountId (alice\<lparr>joinedAt := 1000\<rparr>) \<noteq> []"
    "truthy (workspaceId (alice\<lparr>joinedAt := 1000\<rparr>))"
    by (simp_all add: alice_def)
  show ?thesis
    using handlePull_suffix [OF j, of 0 1 demo_platform "[]" "Some ''k''" history1] j
    by (simp add: history1_state)
qed

text \<open>
  C4. A push or a pull for a session that is not authenticated or has not joined is
  answered with the error \<open>NOT_JOINED\<close> and nothing else happens: the log, the counter
  and the store are as before. A join for a session whose \<open>accountId\<close> is empty is
  answered with \<open>NOT_AUTHENTICATED\<close> and the session stays unjoined.
\<close>

theorem precondition_errors:
  "(accountId session = [] \<or> \<not> truthy (workspaceId session) \<longrightarrow>
      handlePush w session cs s =
        (Inr (), s\<lparr>wire := wire s @ (if w \<in> closed s then []
           else [(w, MsgError ''NOT_JOINED'' ''Must join a workspace first'')])\<rparr>)
    \<and> handlePull w session v s =
        (Inr (), s\<lparr>wire := wire s @ (if w \<in> closed s then []
           else [(w, MsgError ''NOT_JOINED'' ''Must join a workspace first'')])\<rparr>)
    \<and> changes (snd (handlePush w session cs s)) = changes s
    \<and> currentVersion (snd (handlePush w session cs s)) = currentVersion s
    \<and> store (snd (handlePush w session cs s)) = store s)
   \<and> (accountId session = [] \<longrightarrow>
      handleJoin w session wid s =
        (Inr (), s\<lparr>wire := wire s @ (if w \<in> closed s then []
           else [(w, MsgError ''NOT_AUTHENTICATED'' ''Must authenticate first'')])\<rparr>))"
  by (simp add: handlePush_def handlePull_def handleJoin_def sendError_def send_eq)

theorem precondition_errors_witness:
  "(accountId guest = [] \<or> \<not> truthy (workspaceId guest))
   \<and> accountId guest = []
   \<and> handlePush 3 guest (record_array [change_a]) room1
       = (Inr (), room1\<lparr>wire := [(3, MsgError ''NOT_JOINED'' ''Must join a workspace first'')]\<rparr>)
   \<and> handlePull 3 guest (Num 0) room1
       = (Inr (), room1\<lparr>wire := [(3, MsgError ''NOT_JOINED'' ''Must join a workspace first'')]\<rparr>)
   \<and> changes (snd (handlePush 3 guest (record_array [change_a]) room1)) = [change_a\<lparr>version := 1\<rparr>]
   \<and> handleJoin 3 guest ''w1'' room1
       = (Inr (), room1\<lparr>wire := [(3, MsgError ''NOT_AUTHENTICATED'' ''Must authenticate first'')]\<rparr>)"
  using precondition_errors [of guest 3 "record_array [change_a]" room1 "Num 0" "''w1''"]
  by (simp add: guest_def room1_def room0_def)

text \<open>
  The same through the message handler, for a session in the registry: only its
  \<open>lastSeen\<close> is written.
\<close>

lemma push_before_join_message:
  assumes "map_of (sessions s) w = Some session"
    and "accountId session = [] \<or> \<not> truthy (workspaceId session)"
  shows "webSocketMessage P now w (Some (Push cs)) s =
      (Inr (), s\<lparr>sessions := AList.update w (session\<lparr>lastSeen := now\<rparr>) (sessions s),
                  wire := wire s @ (if w \<in> closed s then []
                    else [(w, MsgError ''NOT_JOINED'' ''Must join a workspace first'')])\<rparr>)"
  using assms
  by (simp add: webSocketMessage_def dispatch_def catch_def handlePush_def sendError_def send_eq)

text \<open>
  C5. For a push of an array of change records by a joined session: when both writes
  succeed, the store holds the new
  counter and the whole new log in the state in which \<open>applyChanges\<close> returns, nothing
  has been delivered up to there, and the acknowledgement and the broadcast run from
  that state. When one of the two writes raises, \<open>handlePush\<close> raises and delivers
  nothing, and the message handler's only delivery is an error to the sender: no
  \<open>pushed\<close>, and nothing to any other session. The stateless \<open>POST /changes\<close> raises
  in the same way, without broadcast.
\<close>

theorem push_persisted_before_ack:
  assumes "accountId session \<noteq> []" and "truthy (workspaceId session)"
  shows "(True \<notin> set (take 2 (put_faults (store s))) \<longrightarrow>
        kv_version (store (snd (applyChanges (record_array cs) s))) = Some (currentVersion (snd (applyChanges (record_array cs) s)))
      \<and> kv_changes (store (snd (applyChanges (record_array cs) s))) = Some (changes (snd (applyChanges (record_array cs) s)))
      \<and> wire (snd (applyChanges (record_array cs) s)) = wire s
      \<and> handlePush w session (record_array cs) s =
          seq (\<lambda>s1. send w (MsgPushed (currentVersion s1)) s1)
            (\<lambda>_ s2. broadcastExcept w (MsgChanges (stamp (currentVersion s) cs) (currentVersion s2)) s2)
            (snd (applyChanges (record_array cs) s))
      \<and> store (snd (handlePush w session (record_array cs) s)) = store (snd (applyChanges (record_array cs) s)))
    \<and> (True \<in> set (take 2 (put_faults (store s))) \<longrightarrow>
        fst (handlePush w session (record_array cs) s) = Inl StorageError
      \<and> wire (snd (handlePush w session (record_array cs) s)) = wire s
      \<and> (map_of (sessions s) w = Some session \<longrightarrow>
           wire (snd (webSocketMessage P now w (Some (Push (record_array cs))) s)) =
             wire s @ (if w \<in> closed s then []
                       else [(w, MsgError ''PARSE_ERROR'' ''Invalid message format'')]))
      \<and> (upgrade request \<noteq> Some ''websocket'' \<and> pathname request = ''/changes''
           \<and> http_method request = ''POST'' \<and> body request = Some (record_array cs) \<longrightarrow>
           wire (snd (fetch P now request s)) = wire s
           \<and> fst (fetch P now request s) \<noteq> Inr (SuccessResponse (currentVersion (snd (fetch P now request s))))))"
proof (intro conjI impI)
  assume ok: "True \<notin> set (take 2 (put_faults (store s)))"
  note eq = applyChanges_ok [OF ok, of cs]
  show "kv_version (store (snd (applyChanges (record_array cs) s))) = Some (currentVersion (snd (applyChanges (record_array cs) s)))"
    by (simp add: eq)
  show "kv_changes (store (snd (applyChanges (record_array cs) s))) = Some (changes (snd (applyChanges (record_array cs) s)))"
    by (simp add: eq)
  show "wire (snd (applyChanges (record_array cs) s)) = wire s"
    by (simp add: applyChanges_frame)
  show "handlePush w session (record_array cs) s =
          seq (\<lambda>s1. send w (MsgPushed (currentVersion s1)) s1)
            (\<lambda>_ s2. broadcastExcept w (MsgChanges (stamp (currentVersion s) cs) (currentVersion s2)) s2)
            (snd (applyChanges (record_array cs) s))"
    using assms by (simp add: handlePush_def eq seq_def [of "applyChanges (record_array cs)"])
  show "store (snd (handlePush w session (record_array cs) s)) = store (snd (applyChanges (record_array cs) s))"
    using assms by (simp add: handlePush_def eq seq_def send_eq broadcastExcept_eq)
next
  assume bad: "True \<in> set (take 2 (put_faults (store s)))"
  obtain s1 where s1: "applyChanges (record_array cs) s = (Inl StorageError, s1)"
    using applyChanges_raises [OF bad, of cs] by (cases "applyChanges (record_array cs) s") simp
  have w1: "wire s1 = wire s" "closed s1 = closed s"
    using applyChanges_frame(2,3) [of "record_array cs" s] s1 by simp_all
  have push: "handlePush w session (record_array cs) s = (Inl StorageError, s1)"
    using assms s1 by (simp add: handlePush_def seq_def)
  show "fst (handlePush w session (record_array cs) s) = Inl StorageError" by (simp add: push)
  show "wire (snd (handlePush w session (record_array cs) s)) = wire s" by (simp add: push w1)
  show "wire (snd (webSocketMessage P now w (Some (Push (record_array cs))) s)) =
             wire s @ (if w \<in> closed s then []
                       else [(w, MsgError ''PARSE_ERROR'' ''Invalid message format'')])"
    if reg: "map_of (sessions s) w = Some session"
  proof -
    let ?s0 = "s\<lparr>sessions := AList.update w (session\<lparr>lastSeen := now\<rparr>) (sessions s)\<rparr>"
    have bad0: "True \<in> set (take 2 (put_faults (store ?s0)))" using bad by simp
    obtain s2 where s2: "applyChanges (record_array cs) ?s0 = (Inl StorageError, s2)"
      using applyChanges_raises [OF bad0, of cs] by (cases "applyChanges (record_array cs) ?s0") simp
    have w2: "wire s2 = wire s" "closed s2 = closed s"
      using applyChanges_frame(2,3) [of "record_array cs" ?s0] s2 by simp_all
    have "handlePush w (session\<lparr>lastSeen := now\<rparr>) (record_array cs) ?s0 = (Inl StorageError, s2)"
      using assms s2 by (simp add: handlePush_def seq_def)
    then show ?thesis
      using reg w2
      by (simp add: webSocketMessage_def dispatch_def catch_def sendError_def send_eq)
  qed
  show "wire (snd (fetch P now request s)) = wire s"
    if "upgrade request \<noteq> Some ''websocket'' \<and> pathname request = ''/changes''
           \<and> http_method request = ''POST'' \<and> body request = Some (record_array cs)"
    using that s1 w1 by (simp add: fetch_def seq_def split: option.splits)
  show "fst (fetch P now request s) \<noteq> Inr (SuccessResponse (currentVersion (snd (fetch P now request s))))"
    if "upgrade request \<noteq> Some ''websocket'' \<and> pathname request = ''/changes''
           \<and> http_method request = ''POST'' \<and> body request = Some (record_array cs)"
    using that s1 by (simp add: fetch_def seq_def split: option.splits)
qed

theorem push_persisted_before_ack_witness:
  "accountId alice \<noteq> [] \<and> truthy (workspaceId alice)
   \<and> True \<notin> set (take 2 (put_faults (store room0)))
   \<and> kv_version (store (snd (applyChanges (record_array [change_a]) room0))) = Some 1
   \<and> kv_changes (store (snd (applyChanges (record_array [change_a]) room0)))
       = Some [change_a\<lparr>version := 1\<rparr>]
   \<and> True \<in> set (take 2 (put_faults (store room0_failing)))
   \<and> map_of (sessions room0_failing) 0 = Some alice
   \<and> fst (handlePush 0 alice (record_array [change_a]) room0_failing) = Inl StorageError
   \<and> wire (snd (handlePush 0 alice (record_array [change_a]) room0_failing)) = []
   \<and> wire (snd (webSocketMessage demo_platform 2000 0 (Some (Push (record_array [change_a]))) room0_failing))
       = [(0, MsgError ''PARSE_ERROR'' ''Invalid message format'')]
   \<and> wire (snd (fetch demo_platform 1000 (post_changes (Some ''Bearer P.S'') (Some (record_array [change_a])))
        room0_failing)) = []"
proof -
  have j: "accountId alice \<noteq> []" "truthy (workspaceId alice)"
    by (simp_all add: alice_def)
  have ok: "True \<notin> set (take 2 (put_faults (store room0)))"
    by (simp add: room0_def fresh_store_def)
  have bad: "True \<in> set (take 2 (put_faults (store room0_failing)))"
    by (simp add: room0_failing_def room0_def fresh_store_def)
  have reg: "map_of (sessions room0_failing) 0 = Some alice"
    by (simp add: room0_failing_def room0_def)
  have rq: "upgrade (post_changes (Some ''Bearer P.S'') (Some (record_array [change_a]))) \<noteq> Some ''websocket''
      \<and> pathname (post_changes (Some ''Bearer P.S'') (Some (record_array [change_a]))) = ''/changes''
      \<and> http_method (post_changes (Some ''Bearer P.S'') (Some (record_array [change_a]))) = ''POST''
      \<and> body (post_changes (Some ''Bearer P.S'') (Some (record_array [change_a]))) = Some (record_array [change_a])"
    by (simp add: post_changes_def)
  have w0: "wire room0_failing = []" "closed room0_failing = {1}"
    "changes room0 = []" "currentVersion room0 = 0"
    by (simp_all add: room0_failing_def room0_def)
  show ?thesis
    using push_persisted_before_ack [OF j, of room0 "[change_a]" 0 demo_platform 1000
        "post_changes (Some ''Bearer P.S'') (Some (record_array [change_a]))"]
      push_persisted_before_ack [OF j, of room0_failing "[change_a]" 0 demo_platform 2000
        "post_changes (Some ''Bearer P.S'') (Some (record_array [change_a]))"]
      push_persisted_before_ack [OF j, of room0_failing "[change_a]" 0 demo_platform 1000
        "post_changes (Some ''Bearer P.S'') (Some (record_array [change_a]))"]
      j ok bad reg rq w0
    by (simp add: applyChanges_memory applyChanges_frame)
qed

text \<open>
  C6. When a push has completed (\<open>applyChanges\<close> returned) and no further push is
  attempted, then after any events (sessions leaving, pulls, even earlier restarts) a
  restart reconstructs the log and the counter the push left, and a pull after the
  restart answers what it answered before it, on both protocols.
\<close>

theorem restart_reloads_log:
  assumes "applyChanges p s = (Inr stamped, s')"
    and "list_all (\<lambda>ev. \<not> is_push ev) evs"
  shows "changes (run P evs s') = changes s'
    \<and> currentVersion (run P evs s') = currentVersion s'
    \<and> changes (restart (run P evs s')) = changes s'
    \<and> currentVersion (restart (run P evs s')) = currentVersion s'
    \<and> fst (fetch P now (get_changes q) (restart (run P evs s')))
        = fst (fetch P now (get_changes q) (run P evs s'))
    \<and> wire (snd (handlePull w session v (restart (run P evs s'))))
        = wire (snd (handlePull w session v (run P evs s')))"
proof -
  let ?r = "run P evs s'"
  have sync: "in_sync s'" using assms(1) by (rule applyChanges_in_sync)
  have kept: "core ?r = core s'" using assms(2) sync by (rule core_run_quiet)
  have "in_sync ?r" using in_sync_core [OF kept] sync by simp
  then have again: "core (restart ?r) = core ?r" by (rule core_restart_in_sync)
  have c: "changes ?r = changes s'" "currentVersion ?r = currentVersion s'"
    using kept by (simp_all add: core_def)
  have c': "changes (restart ?r) = changes ?r" "currentVersion (restart ?r) = currentVersion ?r"
    using again by (simp_all add: core_def)
  have n: "wire (restart ?r) = wire ?r" "closed (restart ?r) = closed ?r"
    by (simp_all add: restart_def)
  have f: "fst (fetch P now (get_changes q) (restart ?r)) = fst (fetch P now (get_changes q) ?r)"
    by (simp add: fetch_def get_changes_def c' Let_def)
  have p: "wire (snd (handlePull w session v (restart ?r))) = wire (snd (handlePull w session v ?r))"
    by (simp add: handlePull_def sendError_def send_eq c' n)
  from c c' f p show ?thesis by simp
qed

theorem restart_reloads_log_witness:
  "applyChanges (record_array [change_a]) room0 = (Inr [change_a\<lparr>version := 1\<rparr>], room1)
   \<and> list_all (\<lambda>ev. \<not> is_push ev) [Close 0, Message 2000 2 (Some (Pull (Num 0)))]
   \<and> changes (restart (run no_platform [Close 0, Message 2000 2 (Some (Pull (Num 0)))] room1))
       = [change_a\<lparr>version := 1\<rparr>]
   \<and> currentVersion (restart (run no_platform [Close 0, Message 2000 2 (Some (Pull (Num 0)))] room1))
       = 1
   \<and> fst (fetch no_platform 0 (get_changes (Some ''0''))
         (restart (run no_platform [Close 0, Message 2000 2 (Some (Pull (Num 0)))] room1)))
       = Inr (ChangesResponse [change_a\<lparr>version := 1\<rparr>] 1)
   \<and> fst (fetch no_platform 0 (get_changes (Some ''0''))
         (run no_platform [Close 0, Message 2000 2 (Some (Pull (Num 0)))] room1))
       = Inr (ChangesResponse [change_a\<lparr>version := 1\<rparr>] 1)"
proof -
  have ok: "True \<notin> set (take 2 (put_faults (store room0)))"
    by (simp add: room0_def fresh_store_def)
  have push: "applyChanges (record_array [change_a]) room0 = (Inr [change_a\<lparr>version := 1\<rparr>], room1)"
    by (simp add: applyChanges_ok [OF ok]) (simp add: room1_def room0_def fresh_store_def)
  have quiet: "list_all (\<lambda>ev. \<not> is_push ev) [Close 0, Message 2000 2 (Some (Pull (Num 0)))]"
    by simp
  have pi: "parseInt ''0'' = Num 0" by code_simp
  have r1: "changes room1 = [change_a\<lparr>version := 1\<rparr>]" "currentVersion room1 = 1"
    by (simp_all add: room1_def room0_def)
  note inst = restart_reloads_log [OF push quiet, of no_platform 0 "Some ''0''" 0 alice "Num 0"]
  have g: "fst (fetch no_platform 0 (get_changes (Some ''0''))
         (run no_platform [Close 0, Message 2000 2 (Some (Pull (Num 0)))] room1))
       = Inr (ChangesResponse [change_a\<lparr>version := 1\<rparr>] 1)"
    using inst r1 by (simp add: fetch_def get_changes_def or_else_def pi)
  show ?thesis
    using inst push quiet g r1 by simp
qed

text \<open>
  C7. The stateless \<open>GET /changes\<close> answers with the log whatever the credentials: the
  branch reads neither the \<open>Authorization\<close> header nor the token. Here a request without
  any credential, on a runtime in which no token verifies, is answered with the record
  of the log.
\<close>

theorem get_changes_without_credential:
  "authorization (get_changes (Some ''0'')) = None
   \<and> fetch no_platform 0 (get_changes (Some ''0'')) room1
       = (Inr (ChangesResponse [change_a\<lparr>version := 1\<rparr>] 1), room1)"
proof -
  have pi: "parseInt ''0'' = Num 0" by code_simp
  show ?thesis
    by (simp add: fetch_def get_changes_def or_else_def pi room1_def room0_def)
qed

text \<open>
  The \<open>POST /changes\<close> branch does demand a bearer token that verifies: without one it
  answers 401 and leaves the state as it is.
\<close>

lemma post_changes_requires_bearer:
  assumes "upgrade request \<noteq> Some ''websocket''" and "pathname request = ''/changes''"
    and "http_method request = ''POST''"
    and "authorization request = None
       \<or> (\<exists>h. authorization request = Some h \<and>
            (take 7 h \<noteq> ''Bearer '' \<or> verifyToken P now (drop 7 h) (or_else (SYNC_SECRET s) []) = None))"
  shows "snd (fetch P now request s) = s
    \<and> (fst (fetch P now request s) = Inr (ErrorResponse ''Unauthorized'' 401)
       \<or> fst (fetch P now request s) = Inr (ErrorResponse ''Invalid token'' 401))"
  using assms by (auto simp: fetch_def split: option.splits)

lemma get_changes_ignores_credentials:
  assumes "upgrade request \<noteq> Some ''websocket''" and "pathname request = ''/changes''"
    and "http_method request = ''GET''"
  shows "fetch P now request s = fetch P' now' (request\<lparr>authorization := a\<rparr>) s"
  using assms by (simp add: fetch_def)

text \<open>
  C9 as stated fails: the handler derives \<open>siteId\<close> from the clock at every
  authentication, so that a session authenticated again later with the same token, which
  still verifies, is not left in the state the first authentication left it in. Here the
  session on channel 3 authenticates at 1000 and again at 5000.
\<close>

theorem handleAuth_later_differs:
  "verifyToken demo_platform 1000 ''P.S'' (or_else (SYNC_SECRET room1) []) =
       Some \<lparr>token_accountId = ''acc-1'', token_exp = 2000, token_iat = 0\<rparr>
   \<and> verifyToken demo_platform 5000 ''P.S'' (or_else (SYNC_SECRET room1) []) =
       Some \<lparr>token_accountId = ''acc-1'', token_exp = 2000, token_iat = 0\<rparr>
   \<and> map_of (sessions (snd (handleAuth demo_platform 1000 3 guest ''P.S'' room1))) 3 =
        Some (guest\<lparr>accountId := ''acc-1'', siteId := ''site-acc-1-1000''\<rparr>)
   \<and> map_of (sessions (snd (handleAuth demo_platform 5000 3
          (guest\<lparr>accountId := ''acc-1'', siteId := ''site-acc-1-1000''\<rparr>) ''P.S''
          (snd (handleAuth demo_platform 1000 3 guest ''P.S'' room1))))) 3 =
        Some (guest\<lparr>accountId := ''acc-1'', siteId := ''site-acc-1-5000''\<rparr>)
   \<and> sessions (snd (handleAuth demo_platform 5000 3
          (guest\<lparr>accountId := ''acc-1'', siteId := ''site-acc-1-1000''\<rparr>) ''P.S''
          (snd (handleAuth demo_platform 1000 3 guest ''P.S'' room1))))
       \<noteq> sessions (snd (handleAuth demo_platform 1000 3 guest ''P.S'' room1))"
proof -
  have sec: "or_else (SYNC_SECRET room1) [] = ''k''"
    by (simp add: or_else_def room1_def room0_def)
  have v: "verifyToken demo_platform 1000 ''P.S'' ''k'' =
       Some \<lparr>token_accountId = ''acc-1'', token_exp = 2000, token_iat = 0\<rparr>"
    "verifyToken demo_platform 5000 ''P.S'' ''k'' =
       Some \<lparr>token_accountId = ''acc-1'', token_exp = 2000, token_iat = 0\<rparr>"
    by (simp_all add: verifyToken_def demo_platform_def)
  have d: "decimal 1000 = ''1000''" "decimal 5000 = ''5000''"
    by (simp_all add: decimal.simps char_of_def bit_iff_odd)
  have r: "sessions room1 = [(0, alice), (1, bob), (2, carol), (3, guest)]" "wire room1 = []"
    "3 \<notin> closed room1"
    by (simp_all add: room1_def room0_def)
  have first: "handleAuth demo_platform 1000 3 guest ''P.S'' room1 =
      (Inr (), room1\<lparr>sessions := [(0, alice), (1, bob), (2, carol),
                 (3, guest\<lparr>accountId := ''acc-1'', siteId := ''site-acc-1-1000''\<rparr>)],
               wire := [(3, MsgAuthenticated ''acc-1'')]\<rparr>)"
    by (simp add: handleAuth_def sec v d send_eq Let_def r)
  have second: "handleAuth demo_platform 5000 3
          (guest\<lparr>accountId := ''acc-1'', siteId := ''site-acc-1-1000''\<rparr>) ''P.S''
          (room1\<lparr>sessions := [(0, alice), (1, bob), (2, carol),
                 (3, guest\<lparr>accountId := ''acc-1'', siteId := ''site-acc-1-1000''\<rparr>)],
               wire := [(3, MsgAuthenticated ''acc-1'')]\<rparr>) =
      (Inr (), room1\<lparr>sessions := [(0, alice), (1, bob), (2, carol),
                 (3, guest\<lparr>accountId := ''acc-1'', siteId := ''site-acc-1-5000''\<rparr>)],
               wire := [(3, MsgAuthenticated ''acc-1''), (3, MsgAuthenticated ''acc-1'')]\<rparr>)"
    by (simp add: handleAuth_def sec v d send_eq Let_def r)
  have differ: "guest\<lparr>accountId := ''acc-1'', siteId := ''site-acc-1-5000''\<rparr>
      \<noteq> guest\<lparr>accountId := ''acc-1'', siteId := ''site-acc-1-1000''\<rparr>"
    by (simp add: guest_def)
  show ?thesis
    using differ first second by (simp add: sec v)
qed

text \<open>
  C9, amended. Authenticating again with a token that still verifies leaves the session
  authenticated as the same account and as joined or unjoined as it was: the handler
  writes \<open>accountId\<close> (the same value) and \<open>siteId\<close> (derived anew from the account
  and the time of this authentication) and nothing else, so that the registry after the
  second authentication is the one a single authentication at that time would have left,
  and is the registry the first authentication left when the clock has not moved. The
  log, the counter and the store are not touched. A token that does not verify is
  answered with \<open>AUTH_FAILED\<close> and nothing but the delivery record changes.
\<close>

theorem handleAuth_overwrites_identity:
  "(verifyToken P t1 token (or_else (SYNC_SECRET s) []) = Some payload
      \<and> verifyToken P t2 token (or_else (SYNC_SECRET s) []) = Some payload \<longrightarrow>
      map_of (sessions (snd (handleAuth P t1 w session token s))) w =
        Some (session\<lparr>accountId := token_accountId payload,
                siteId := ''site-'' @ token_accountId payload @ ''-'' @ decimal t1\<rparr>)
    \<and> map_of (sessions (snd (handleAuth P t2 w
          (session\<lparr>accountId := token_accountId payload,
                siteId := ''site-'' @ token_accountId payload @ ''-'' @ decimal t1\<rparr>) token
          (snd (handleAuth P t1 w session token s))))) w =
        Some (session\<lparr>accountId := token_accountId payload,
                siteId := ''site-'' @ token_accountId payload @ ''-'' @ decimal t2\<rparr>)
    \<and> sessions (snd (handleAuth P t2 w
          (session\<lparr>accountId := token_accountId payload,
                siteId := ''site-'' @ token_accountId payload @ ''-'' @ decimal t1\<rparr>) token
          (snd (handleAuth P t1 w session token s)))) =
       sessions (snd (handleAuth P t2 w session token s))
    \<and> (t2 = t1 \<longrightarrow>
        sessions (snd (handleAuth P t2 w
          (session\<lparr>accountId := token_accountId payload,
                siteId := ''site-'' @ token_accountId payload @ ''-'' @ decimal t1\<rparr>) token
          (snd (handleAuth P t1 w session token s)))) =
        sessions (snd (handleAuth P t1 w session token s)))
    \<and> core (snd (handleAuth P t2 w
          (session\<lparr>accountId := token_accountId payload,
                siteId := ''site-'' @ token_accountId payload @ ''-'' @ decimal t1\<rparr>) token
          (snd (handleAuth P t1 w session token s)))) = core s)
   \<and> (verifyToken P now token' (or_else (SYNC_SECRET s) []) = None \<longrightarrow>
      handleAuth P now w session token' s =
        (Inr (), s\<lparr>wire := wire s @ (if w \<in> closed s then []
           else [(w, MsgError ''AUTH_FAILED'' ''Invalid or expired token'')])\<rparr>))"
proof (intro conjI impI)
  assume bad: "verifyToken P now token' (or_else (SYNC_SECRET s) []) = None"
  then show "handleAuth P now w session token' s =
        (Inr (), s\<lparr>wire := wire s @ (if w \<in> closed s then []
           else [(w, MsgError ''AUTH_FAILED'' ''Invalid or expired token'')])\<rparr>)"
    by (simp add: handleAuth_def sendError_def send_eq)
next
  assume v: "verifyToken P t1 token (or_else (SYNC_SECRET s) []) = Some payload
      \<and> verifyToken P t2 token (or_else (SYNC_SECRET s) []) = Some payload"
  let ?acc = "token_accountId payload"
  let ?site = "\<lambda>t. ''site-'' @ ?acc @ ''-'' @ decimal t"
  let ?sess = "\<lambda>t. session\<lparr>accountId := ?acc, siteId := ?site t\<rparr>"
  have gen: "handleAuth P t w sess token s' =
      (Inr (), s'\<lparr>sessions := AList.update w (sess\<lparr>accountId := ?acc, siteId := ?site t\<rparr>) (sessions s'),
                  wire := wire s' @ (if w \<in> closed s' then [] else [(w, MsgAuthenticated ?acc)])\<rparr>)"
    if "verifyToken P t token (or_else (SYNC_SECRET s') []) = Some payload" for t sess s'
    using that by (simp add: handleAuth_def Let_def send_eq)
  note first = gen [where sess = session and s' = s]
  let ?s1 = "snd (handleAuth P t1 w session token s)"
  have s1: "?s1 = s\<lparr>sessions := AList.update w (?sess t1) (sessions s),
                  wire := wire s @ (if w \<in> closed s then [] else [(w, MsgAuthenticated ?acc)])\<rparr>"
    using first [of t1] v by simp
  have secret1: "SYNC_SECRET ?s1 = SYNC_SECRET s" by (simp add: s1)
  have second: "handleAuth P t2 w (?sess t1) token ?s1 =
      (Inr (), ?s1\<lparr>sessions := AList.update w (?sess t2) (sessions ?s1),
                  wire := wire ?s1 @ (if w \<in> closed ?s1 then [] else [(w, MsgAuthenticated ?acc)])\<rparr>)"
    using gen [of t2 ?s1 "?sess t1"] v secret1 by simp
  show "map_of (sessions ?s1) w = Some (?sess t1)"
    using s1 by (simp add: update_conv')
  show "map_of (sessions (snd (handleAuth P t2 w (?sess t1) token ?s1))) w = Some (?sess t2)"
    using second by (simp add: update_conv')
  show eq: "sessions (snd (handleAuth P t2 w (?sess t1) token ?s1)) =
       sessions (snd (handleAuth P t2 w session token s))"
    using first [of t2] v second s1 by simp
  show "sessions (snd (handleAuth P t2 w (?sess t1) token ?s1)) = sessions ?s1" if "t2 = t1"
    using eq that by simp
  show "core (snd (handleAuth P t2 w (?sess t1) token ?s1)) = core s"
    using second s1 by (simp add: core_def)
qed

theorem handleAuth_overwrites_identity_witness:
  "verifyToken demo_platform 1000 ''P.S'' (or_else (SYNC_SECRET room1) []) =
       Some \<lparr>token_accountId = ''acc-1'', token_exp = 2000, token_iat = 0\<rparr>
   \<and> verifyToken demo_platform 5000 ''P.S'' (or_else (SYNC_SECRET room1) []) =
       Some \<lparr>token_accountId = ''acc-1'', token_exp = 2000, token_iat = 0\<rparr>
   \<and> verifyToken demo_platform 5000 ''P.X'' (or_else (SYNC_SECRET room1) []) = None
   \<and> map_of (sessions (snd (handleAuth demo_platform 5000 3
          (guest\<lparr>accountId := ''acc-1'', siteId := ''site-acc-1-1000''\<rparr>) ''P.S''
          (snd (handleAuth demo_platform 1000 3 guest ''P.S'' room1))))) 3 =
        Some (guest\<lparr>accountId := ''acc-1'', siteId := ''site-acc-1-5000''\<rparr>)
   \<and> core (snd (handleAuth demo_platform 5000 3
          (guest\<lparr>accountId := ''acc-1'', siteId := ''site-acc-1-1000''\<rparr>) ''P.S''
          (snd (handleAuth demo_platform 1000 3 guest ''P.S'' room1)))) = core room1
   \<and> handleAuth demo_platform 5000 3 guest ''P.X'' room1 =
        (Inr (), room1\<lparr>wire := [(3, MsgError ''AUTH_FAILED'' ''Invalid or expired token'')]\<rparr>)"
proof -
  have sec: "or_else (SYNC_SECRET room1) [] = ''k''"
    by (simp add: or_else_def room1_def room0_def)
  have v: "verifyToken demo_platform 1000 ''P.S'' (or_else (SYNC_SECRET room1) []) =
       Some \<lparr>token_accountId = ''acc-1'', token_exp = 2000, token_iat = 0\<rparr>"
    "verifyToken demo_platform 5000 ''P.S'' (or_else (SYNC_SECRET room1) []) =
       Some \<lparr>token_accountId = ''acc-1'', token_exp = 2000, token_iat = 0\<rparr>"
    "verifyToken demo_platform 5000 ''P.X'' (or_else (SYNC_SECRET room1) []) = None"
    by (simp_all add: sec verifyToken_def demo_platform_def)
  have d: "decimal 1000 = ''1000''" "decimal 5000 = ''5000''"
    by (simp_all add: decimal.simps char_of_def bit_iff_odd)
  have w: "wire room1 = []" "3 \<notin> closed room1" by (simp_all add: room1_def room0_def)
  note inst = handleAuth_overwrites_identity [of demo_platform 1000 "''P.S''" room1
        "\<lparr>token_accountId = ''acc-1'', token_exp = 2000, token_iat = 0\<rparr>" 5000 3 guest 5000 "''P.X''"]
  note valid = inst [THEN conjunct1, THEN mp, OF conjI [OF v(1) v(2)]]
  note again = valid [THEN conjunct2, THEN conjunct1]
  note kept = valid [THEN conjunct2, THEN conjunct2, THEN conjunct2, THEN conjunct2]
  note failed = inst [THEN conjunct2, THEN mp, OF v(3)]
  show ?thesis
    using again kept failed v w by (simp add: d)
qed

text \<open>
  What "invalid or expired" means for \<open>verifyToken\<close>: a token that is not two parts
  around one dot, whose payload does not decode, whose expiry lies before the clock, or
  whose signature is not confirmed, does not verify.
\<close>

lemma verifyToken_rejects:
  "length (split_on CHR ''.'' token) \<noteq> 2 \<Longrightarrow> verifyToken P now token secret = None"
  "verifyToken P now token secret = Some payload \<Longrightarrow> int (now div 1000) \<le> token_exp payload"
  "verifyToken P now token secret = Some payload \<Longrightarrow>
     \<exists>p sg. split_on CHR ''.'' token = [p, sg] \<and> decode_payload P p = Some payload
       \<and> hmac_verify P secret sg payload = Some True"
  by (auto simp: verifyToken_def split: list.splits option.splits if_splits bool.splits)

text \<open>
  C10 as stated fails for an empty \<open>since\<close> value: it is present and \<open>parseInt\<close> of it
  is \<open>NaN\<close>, but \<open>|| "0"\<close> replaces it by \<open>"0"\<close> before parsing, and the answer is the
  whole log.
\<close>

theorem get_changes_empty_since:
  "since (get_changes (Some [])) = Some [] \<and> parseInt [] = NaN
   \<and> fetch no_platform 0 (get_changes (Some [])) room1
       = (Inr (ChangesResponse [change_a\<lparr>version := 1\<rparr>] 1), room1)"
proof -
  have pi: "parseInt ''0'' = Num 0" "parseInt [] = NaN" by code_simp+
  show ?thesis
    by (simp add: fetch_def get_changes_def or_else_def pi room1_def room0_def)
qed

text \<open>
  C10, amended. On \<open>GET /changes\<close>, when the \<open>since\<close> parameter is present, not empty,
  and \<open>parseInt\<close> reads no integer from it (\<open>NaN\<close>), every comparison
  \<open>version > NaN\<close> is false and the answer is the empty list with the true
  \<open>currentVersion\<close>; the state is untouched.
\<close>

theorem get_changes_since_NaN:
  assumes "upgrade request \<noteq> Some ''websocket''" and "pathname request = ''/changes''"
    and "http_method request = ''GET''"
    and "since request = Some q" and "q \<noteq> []" and "parseInt q = NaN"
  shows "fetch P now request s = (Inr (ChangesResponse [] (currentVersion s)), s)
     \<and> list_all (\<lambda>c. \<not> js_gt (version c) (parseInt q)) (changes s)"
  using assms by (simp add: fetch_def or_else_def list_all_iff)

theorem get_changes_since_NaN_witness:
  "upgrade (get_changes (Some ''abc'')) \<noteq> Some ''websocket''
   \<and> pathname (get_changes (Some ''abc'')) = ''/changes''
   \<and> http_method (get_changes (Some ''abc'')) = ''GET''
   \<and> since (get_changes (Some ''abc'')) = Some ''abc'' \<and> ''abc'' \<noteq> [] \<and> parseInt ''abc'' = NaN
   \<and> changes room1 \<noteq> []
   \<and> fetch no_platform 0 (get_changes (Some ''abc'')) room1 = (Inr (ChangesResponse [] 1), room1)"
proof -
  have pi: "parseInt ''abc'' = NaN" by code_simp
  have rq: "upgrade (get_changes (Some ''abc'')) \<noteq> Some ''websocket''"
    "pathname (get_changes (Some ''abc'')) = ''/changes''"
    "http_method (get_changes (Some ''abc'')) = ''GET''"
    "since (get_changes (Some ''abc'')) = Some ''abc''"
    by (simp_all add: get_changes_def)
  have ne: "''abc'' \<noteq> []" by simp
  show ?thesis
    using get_changes_since_NaN [OF rq ne pi, of no_platform 0 room1] rq pi
    by (simp add: room1_def room0_def)
qed

text \<open>A parameter that is absent or empty is read as \<open>0\<close>: the whole log of a reachable state.\<close>

lemma get_changes_default:
  assumes "upgrade request \<noteq> Some ''websocket''" and "pathname request = ''/changes''"
    and "http_method request = ''GET''"
    and "since request = None \<or> since request = Some []"
  shows "fetch P now request s =
    (Inr (ChangesResponse (filter (\<lambda>c. 0 < version c) (changes s)) (currentVersion s)), s)"
proof -
  have pi: "parseInt ''0'' = Num 0" by code_simp
  show ?thesis using assms by (auto simp: fetch_def or_else_def pi)
qed

text \<open>The stateless pull agrees with the pull of a session whenever the parameter parses.\<close>

lemma get_changes_since:
  assumes "upgrade request \<noteq> Some ''websocket''" and "pathname request = ''/changes''"
    and "http_method request = ''GET''"
    and "parseInt (or_else (since request) ''0'') = Num v"
  shows "fetch P now request s =
    (Inr (ChangesResponse (filter (\<lambda>c. v < version c) (changes s)) (currentVersion s)), s)"
  using assms by (simp add: fetch_def)

end
